theory Spec2Isabelle
  imports Complex_Main "HOL-Library.Word" "HOL-Library.Sublist"
begin

section \<open>Data model of the YoloDetector node (detect.py)\<close>

text \<open>
  A frame is a \<open>bgr8\<close> pixel matrix: a list of rows, each row a list of pixels, each pixel
  three 8-bit channels. A mask is a single-channel matrix of the same kind.
\<close>

type_synonym pixel = "8 word \<times> 8 word \<times> 8 word"
type_synonym image = "pixel list list"
type_synonym mask = "8 word list list"

definition shape0 :: "'a list list \<Rightarrow> nat" where
  "shape0 img = length img"

definition shape1 :: "'a list list \<Rightarrow> nat" where
  "shape1 img = (case img of [] \<Rightarrow> 0 | r # rs \<Rightarrow> length r)"

text \<open>All rows of a matrix of height \<open>h\<close> have the width \<open>w\<close> (a numpy array always is so).\<close>

definition rectangular :: "'a list list \<Rightarrow> nat \<Rightarrow> nat \<Rightarrow> bool" where
  "rectangular img h w = (length img = h \<and> list_all (\<lambda>r. length r = w) img)"

text \<open>Exceptions of the collaborators and of Python itself.\<close>

datatype error = CvBridgeError | CvError | DetectorError | ReaderError | KeyError | AttributeError

text \<open>
  ROS parameters: \<open>get_parameter\<close> returns a Parameter object; its payload is read
  through \<open>.value\<close> or \<open>.get_parameter_value().integer_value / .bool_value\<close>.
\<close>

datatype pyval = PyInt int | PyStr string | PyBool bool

datatype parameter = Parameter (param_name: string) (param_value: pyval)

definition integer_value :: "parameter \<Rightarrow> int" where
  "integer_value p = (case param_value p of PyInt i \<Rightarrow> i | PyStr s \<Rightarrow> 0 | PyBool b \<Rightarrow> 0)"

definition bool_value :: "parameter \<Rightarrow> bool" where
  "bool_value p = (case param_value p of PyBool b \<Rightarrow> b | PyInt i \<Rightarrow> False | PyStr s \<Rightarrow> False)"

text \<open>An element of a tuple handed to OpenCV: a number, or some other Python object.\<close>

datatype pyobj = Num int | Obj parameter

type_synonym bound = "pyobj \<times> pyobj \<times> pyobj"

text \<open>
  One box of the detector's output: corner form \<open>xyxy[0]\<close>, centre form \<open>xywh[0]\<close> and the
  confidence. Coordinates are modelled as exact reals.
\<close>

record box =
  x_min :: real
  y_min :: real
  x_max :: real
  y_max :: real
  x_center :: real
  y_center :: real
  box_width :: real
  box_height :: real
  conf :: real

text \<open>One entry of \<open>reader.readtext\<close>: (corner points, text, confidence).\<close>

type_synonym reading = "(int \<times> int) list \<times> string \<times> real"

datatype color_code = COLOR_BGR2RGB | COLOR_BGR2HSV

text \<open>
  What the node does to the outside, in order: log lines, publications on the two topics,
  and the calls to the detector and to the text reader.
\<close>

datatype effect =
    LogInfo string
  | LogWarn string
  | LogError string
  | PublishDetectionWindow image
  | PublishVestMask mask
  | YoloPredict pyval image nat
  | ReadText image

text \<open>
  The collaborators of the node, none of which is code of this repository: the parameter
  server, CvBridge, OpenCV, the YOLO model and the EasyOCR reader. Each is a field, so a
  theorem about the node holds whatever they compute.
\<close>

record 'msg env =
  parameters :: "string \<Rightarrow> pyval"
  imgmsg_to_cv2 :: "'msg \<Rightarrow> error + image"
  cv2_resize :: "image \<Rightarrow> int \<times> int \<Rightarrow> int option \<Rightarrow> image"
  cv2_cvtColor :: "image \<Rightarrow> color_code \<Rightarrow> error + image"
  cv2_inRange :: "image \<Rightarrow> bound \<Rightarrow> bound \<Rightarrow> error + mask"
  cv2_line :: "image \<Rightarrow> int \<times> int \<Rightarrow> int \<times> int \<Rightarrow> image"
  cv2_putText :: "image \<Rightarrow> string \<Rightarrow> int \<times> int \<Rightarrow> image"
  cv2_rectangle :: "image \<Rightarrow> int \<times> int \<Rightarrow> int \<times> int \<Rightarrow> image"
  yolo_predict :: "pyval \<Rightarrow> image \<Rightarrow> nat \<Rightarrow> error + box list list"
  readtext :: "image \<Rightarrow> error + reading list"
  str_round2 :: "real \<Rightarrow> string"

definition get_parameter :: "'msg env \<Rightarrow> string \<Rightarrow> parameter" where
  "get_parameter e n = Parameter n (parameters e n)"

text \<open>
  Arrays are mutable objects: the store maps an address to the array's contents, a fresh
  array gets the next address. The node's only attribute that changes is \<open>cam_image\<close>.
\<close>

type_synonym addr = nat

record node =
  cam_image :: "addr option"
  heap :: "image list"

definition alloc :: "image \<Rightarrow> node \<Rightarrow> addr \<times> node" where
  "alloc img s = (length (heap s), s\<lparr>heap := heap s @ [img]\<rparr>)"

definition deref :: "node \<Rightarrow> addr \<Rightarrow> image" where
  "deref s a = (if a < length (heap s) then heap s ! a else [])"

definition store :: "addr \<Rightarrow> image \<Rightarrow> node \<Rightarrow> node" where
  "store a img s = s\<lparr>heap := (heap s)[a := img]\<rparr>"

text \<open>
  A computation yields the effects it emitted and either the exception that ended it or
  its value.
\<close>

type_synonym 'a res = "effect list \<times> (error + 'a)"

definition ret :: "'a \<Rightarrow> 'a res" where
  "ret a = ([], Inr a)"

definition emit :: "effect \<Rightarrow> unit res" where
  "emit x = ([x], Inr ())"

definition lift :: "error + 'a \<Rightarrow> 'a res" where
  "lift r = ([], r)"

definition then_do :: "'a res \<Rightarrow> ('a \<Rightarrow> 'b res) \<Rightarrow> 'b res" where
  "then_do m f =
     (case m of
        (t, Inl err) \<Rightarrow> (t, Inl err)
      | (t, Inr a) \<Rightarrow> (case f a of (t', r) \<Rightarrow> (t @ t', r)))"

section \<open>Python and numpy primitives\<close>

text \<open>\<open>int(x)\<close> of a float truncates towards zero.\<close>

definition py_int :: "real \<Rightarrow> int" where
  "py_int x = (if 0 \<le> x then \<lfloor>x\<rfloor> else \<lceil>x\<rceil>)"

text \<open>A slice bound: negative counts from the end, and both ends are clamped.\<close>

definition slice_index :: "nat \<Rightarrow> int \<Rightarrow> nat" where
  "slice_index n i = (if i < 0 then nat (max 0 (i + int n)) else min n (nat i))"

definition py_slice :: "'a list \<Rightarrow> int \<Rightarrow> int \<Rightarrow> 'a list" where
  "py_slice xs a b =
     (let start = slice_index (length xs) a; stop = slice_index (length xs) b
      in take (stop - start) (drop start xs))"

text \<open>\<open>image[r0:r1, c0:c1]\<close>\<close>

definition np_crop :: "'a list list \<Rightarrow> int \<Rightarrow> int \<Rightarrow> int \<Rightarrow> int \<Rightarrow> 'a list list" where
  "np_crop img r0 r1 c0 c1 = map (\<lambda>row. py_slice row c0 c1) (py_slice img r0 r1)"

text \<open>\<open>str.upper\<close> on the ASCII letters (the reader is created for English text).\<close>

definition py_upper_char :: "char \<Rightarrow> char" where
  "py_upper_char c =
     (case map_of (zip ''abcdefghijklmnopqrstuvwxyz'' ''ABCDEFGHIJKLMNOPQRSTUVWXYZ'') c of
        Some u \<Rightarrow> u
      | None \<Rightarrow> c)"

definition py_upper :: "string \<Rightarrow> string" where
  "py_upper s = map py_upper_char s"

text \<open>\<open>str.replace\<close> for one-character patterns; it returns a new string.\<close>

definition py_replace :: "string \<Rightarrow> char \<Rightarrow> char \<Rightarrow> string" where
  "py_replace s old new = map (\<lambda>c. if c = old then new else c) s"

text \<open>\<open>sub in s\<close>\<close>

fun py_in :: "'a list \<Rightarrow> 'a list \<Rightarrow> bool" where
  "py_in sub [] = (sub = [])"
| "py_in sub (c # cs) = (prefix sub (c # cs) \<or> py_in sub cs)"

text \<open>\<open>cv2.flip\<close>: code 0 flips around the x axis, a positive code around the y axis,
  a negative code around both.\<close>

definition cv2_flip :: "'a list list \<Rightarrow> int \<Rightarrow> 'a list list" where
  "cv2_flip img flipCode =
     (if flipCode = 0 then rev img
      else if 0 < flipCode then map rev img
      else rev (map rev img))"

text \<open>
  A rotation by 180 degrees, as the specification words it: the pixel at row \<open>i\<close>, column
  \<open>j\<close> of the result is the pixel at row \<open>h - 1 - i\<close>, column \<open>w - 1 - j\<close> of the input.
\<close>

definition rotate180 :: "'a list list \<Rightarrow> 'a list list" where
  "rotate180 img =
     (let h = shape0 img; w = shape1 img
      in map (\<lambda>i. map (\<lambda>j. img ! (h - 1 - i) ! (w - 1 - j)) [0..<w]) [0..<h])"

section \<open>The Stop-Sign Validator\<close>

text \<open>
  The loop of \<open>stopsign_ocr_check\<close> over the readings. The value of
  \<open>text.replace("0", "O")\<close> is not bound to anything: strings are immutable, so \<open>text\<close> is
  what the reader returned.
\<close>

fun scan_readings :: "reading list \<Rightarrow> effect list \<times> bool" where
  "scan_readings [] = ([], False)"
| "scan_readings (r # rest) =
     (let text = fst (snd r);
          discarded = py_replace text (CHR ''0'') (CHR ''O'');
          logged = LogInfo (''Sign reads: '' @ text)
      in if py_in ''STOP'' (py_upper text) then ([logged], True)
         else (case scan_readings rest of (t, found) \<Rightarrow> (logged # t, found)))"

definition stopsign_ocr_check :: "'msg env \<Rightarrow> image \<Rightarrow> bool res" where
  "stopsign_ocr_check e sign_image =
     then_do (lift (cv2_cvtColor e sign_image COLOR_BGR2RGB)) (\<lambda>rgb.
     then_do (emit (ReadText rgb)) (\<lambda>u.
     then_do (lift (readtext e rgb)) (\<lambda>readings.
       (case scan_readings readings of (t, stop_found) \<Rightarrow> (t, Inr stop_found)))))"

text \<open>
  The validator as the specification words it: normalise \<open>0\<close> to \<open>O\<close>, then test
  case-insensitively for \<open>STOP\<close>.
\<close>

definition validate_spec :: "string list \<Rightarrow> bool" where
  "validate_spec texts =
     list_ex (\<lambda>text. py_in ''STOP'' (py_upper (py_replace text (CHR ''0'') (CHR ''O'')))) texts"

section \<open>The Frame Preprocessor\<close>

definition np_zeros :: "nat \<Rightarrow> nat \<Rightarrow> image" where
  "np_zeros rows cols = replicate rows (replicate cols (0, 0, 0))"

text \<open>\<open>m[y:y+h, x:x+w] = img\<close> for an \<open>img\<close> of \<open>h\<close> rows that fits into \<open>m\<close>.\<close>

definition np_assign_block :: "'a list list \<Rightarrow> nat \<Rightarrow> nat \<Rightarrow> 'a list list \<Rightarrow> 'a list list" where
  "np_assign_block m y x img =
     take y m
     @ map2 (\<lambda>row src. take x row @ src @ drop (x + length src) row)
         (take (length img) (drop y m)) img
     @ drop (y + length img) m"

definition INTER_AREA :: int where
  "INTER_AREA = 3"

text \<open>The square canvas of \<open>letterbox_resize\<close> with the frame pasted into it.\<close>

definition letterbox_canvas :: "image \<Rightarrow> image" where
  "letterbox_canvas img =
     (let h = shape0 img; w = shape1 img;
          dif = max h w;
          mask = np_zeros dif dif;
          y = (dif - h) div 2; x = (dif - w) div 2
      in np_assign_block mask y x img)"

definition letterbox_resize :: "'msg env \<Rightarrow> image \<Rightarrow> int \<times> int \<Rightarrow> image" where
  "letterbox_resize e img sz =
     (let h = shape0 img; w = shape1 img
      in if h = w then cv2_resize e img sz (Some INTER_AREA)
         else cv2_resize e (letterbox_canvas img) sz None)"

text \<open>
  \<open>image_callback\<close>: a message that CvBridge cannot decode is logged and dropped; any
  other one replaces the cached frame.
\<close>

definition image_callback :: "'msg env \<Rightarrow> 'msg \<Rightarrow> node \<Rightarrow> effect list \<times> node" where
  "image_callback e msg s =
     (case imgmsg_to_cv2 e msg of
        Inl err \<Rightarrow> ([LogError ''CVBridge error''], s)
      | Inr img \<Rightarrow>
          (let resize_val = integer_value (get_parameter e ''image_resize'');
               img1 = (if 0 < resize_val then letterbox_resize e img (resize_val, resize_val)
                       else img);
               img2 = (if bool_value (get_parameter e ''flip_image'')
                       then cv2_flip (cv2_flip img1 0) 1 else img1)
           in (case alloc img2 s of (a, s') \<Rightarrow> ([], s'\<lparr>cam_image := Some a\<rparr>))))"

section \<open>The Vest Color Segmenter\<close>

text \<open>
  \<open>orange_vest_mask\<close> builds both bounds from the Parameter objects that
  \<open>get_parameter\<close> returns.
\<close>

definition orange_vest_mask :: "'msg env \<Rightarrow> image \<Rightarrow> unit res" where
  "orange_vest_mask e person_image =
     (let tcol_lower = (Obj (get_parameter e ''orange.hue_l''),
                        Obj (get_parameter e ''orange.sat_l''),
                        Obj (get_parameter e ''orange.val_l''));
          tcol_upper = (Obj (get_parameter e ''orange.hue_h''),
                        Obj (get_parameter e ''orange.sat_h''),
                        Obj (get_parameter e ''orange.val_h''))
      in then_do (lift (cv2_cvtColor e person_image COLOR_BGR2HSV)) (\<lambda>hsv_image.
         then_do (lift (cv2_inRange e hsv_image tcol_lower tcol_upper)) (\<lambda>m.
           emit (PublishVestMask m))))"

section \<open>The Detection Result Analyzer\<close>

definition crop_box :: "node \<Rightarrow> addr \<Rightarrow> box \<Rightarrow> image" where
  "crop_box s image_arr b =
     np_crop (deref s image_arr) (py_int (y_min b)) (py_int (y_max b))
       (py_int (x_min b)) (py_int (x_max b))"

text \<open>An OpenCV drawing call changes the array it is given in place.\<close>

definition draw :: "addr \<Rightarrow> (image \<Rightarrow> image) \<Rightarrow> node \<Rightarrow> node" where
  "draw a f s = store a (f (deref s a)) s"

definition area_pct :: "nat \<Rightarrow> box \<Rightarrow> real" where
  "area_pct image_size b = 100 * ((box_width b * box_height b) / real image_size)"

type_synonym tally = "nat \<times> real"

text \<open>The running pair \<open>(detected, biggest_bbox)\<close> after one more counted box.\<close>

definition count_step :: "nat \<Rightarrow> box \<Rightarrow> tally \<Rightarrow> tally" where
  "count_step image_size b acc =
     (let area = area_pct image_size b
      in (fst acc + 1, if snd acc < area then area else snd acc))"

definition mark_fake :: "'msg env \<Rightarrow> string \<Rightarrow> box \<Rightarrow> image \<Rightarrow> image" where
  "mark_fake e mode b im =
     cv2_putText e
       (cv2_line e im (py_int (x_min b), py_int (y_min b)) (py_int (x_max b), py_int (y_max b)))
       (''Fake '' @ mode @ '', '' @ str_round2 e (conf b))
       (py_int (x_min b), py_int (y_min b) - 10)"

definition mark_counted :: "'msg env \<Rightarrow> string \<Rightarrow> box \<Rightarrow> image \<Rightarrow> image" where
  "mark_counted e mode b im =
     cv2_putText e
       (cv2_rectangle e im (py_int (x_min b), py_int (y_min b))
          (py_int (x_max b), py_int (y_max b)))
       (mode @ '', '' @ str_round2 e (conf b))
       (py_int (x_min b), py_int (y_min b) - 10)"

text \<open>The loop body from the \<open>person\<close> test on: the part a rejected stop sign skips.\<close>

definition count_box ::
  "'msg env \<Rightarrow> addr \<Rightarrow> addr \<Rightarrow> nat \<Rightarrow> string \<Rightarrow> box \<Rightarrow> tally \<times> node \<Rightarrow> (tally \<times> node) res" where
  "count_box e image_arr output_image image_size mode b st =
     then_do (if mode = ''person'' then orange_vest_mask e (crop_box (snd st) image_arr b)
              else ret ()) (\<lambda>u.
       ret (count_step image_size b (fst st),
            draw output_image (mark_counted e mode b) (snd st)))"

definition analyze_box ::
  "'msg env \<Rightarrow> addr \<Rightarrow> addr \<Rightarrow> nat \<Rightarrow> string \<Rightarrow> box \<Rightarrow> tally \<times> node \<Rightarrow> (tally \<times> node) res" where
  "analyze_box e image_arr output_image image_size mode b st =
     (if mode = ''stop'' then
        then_do (stopsign_ocr_check e (crop_box (snd st) image_arr b)) (\<lambda>ok.
          if \<not> ok then ret (fst st, draw output_image (mark_fake e mode b) (snd st))
          else count_box e image_arr output_image image_size mode b st)
      else count_box e image_arr output_image image_size mode b st)"

fun analyze_boxes ::
  "'msg env \<Rightarrow> addr \<Rightarrow> addr \<Rightarrow> nat \<Rightarrow> string \<Rightarrow> box list \<Rightarrow> tally \<times> node \<Rightarrow> (tally \<times> node) res" where
  "analyze_boxes e image_arr output_image image_size mode [] st = ret st"
| "analyze_boxes e image_arr output_image image_size mode (b # bs) st =
     then_do (analyze_box e image_arr output_image image_size mode b st)
       (analyze_boxes e image_arr output_image image_size mode bs)"

fun analyze_loop ::
  "'msg env \<Rightarrow> addr \<Rightarrow> addr \<Rightarrow> nat \<Rightarrow> string \<Rightarrow> box list list \<Rightarrow> tally \<times> node \<Rightarrow> (tally \<times> node) res" where
  "analyze_loop e image_arr output_image image_size mode [] st = ret st"
| "analyze_loop e image_arr output_image image_size mode (boxes # results) st =
     then_do (analyze_boxes e image_arr output_image image_size mode boxes st)
       (analyze_loop e image_arr output_image image_size mode results)"

definition analyze_results ::
  "'msg env \<Rightarrow> box list list \<Rightarrow> addr \<Rightarrow> string \<Rightarrow> node \<Rightarrow> (tally \<times> node) res" where
  "analyze_results e results image_arr mode s =
     (let image_size = shape0 (deref s image_arr) * shape1 (deref s image_arr)
      in case alloc (deref s image_arr) s of (output_image, s1) \<Rightarrow>
           then_do (analyze_loop e image_arr output_image image_size mode results ((0, 0), s1))
             (\<lambda>st.
           then_do (emit (PublishDetectionWindow (deref (snd st) output_image))) (\<lambda>u.
             ret st)))"

section \<open>The Detection Request Handler\<close>

definition dict_get :: "(string \<times> 'v) list \<Rightarrow> string \<Rightarrow> error + 'v" where
  "dict_get d k = (case map_of d k of None \<Rightarrow> Inl KeyError | Some v \<Rightarrow> Inr v)"

definition model_path :: "'msg env \<Rightarrow> (string \<times> pyval) list" where
  "model_path e =
     [(''stop'', param_value (get_parameter e ''coco_model_path'')),
      (''tire'', param_value (get_parameter e ''tire_model_path'')),
      (''person'', param_value (get_parameter e ''coco_model_path''))]"

definition target_ids :: "(string \<times> nat) list" where
  "target_ids = [(''person'', 0), (''stop'', 11), (''tire'', 0)]"

definition detect :: "'msg env \<Rightarrow> string \<Rightarrow> node \<Rightarrow> (tally \<times> node) res" where
  "detect e mode s =
     then_do (lift (dict_get (model_path e) mode)) (\<lambda>path.
     then_do (lift (case cam_image s of None \<Rightarrow> Inl AttributeError | Some a \<Rightarrow> Inr a)) (\<lambda>cam.
       case alloc (deref s cam) s of (im, s1) \<Rightarrow>
         then_do (lift (dict_get target_ids mode)) (\<lambda>cls.
         then_do (emit (YoloPredict path (deref s1 im) cls)) (\<lambda>u.
         then_do (lift (yolo_predict e path (deref s1 im) cls)) (\<lambda>results.
         then_do (analyze_results e results im mode s1) (\<lambda>st.
           ret (fst st, (snd st)\<lparr>cam_image := None\<rparr>)))))))"

record response =
  count :: int
  size_pct :: real

definition handle_detection_request ::
  "'msg env \<Rightarrow> string \<Rightarrow> node \<Rightarrow> (response \<times> node) res" where
  "handle_detection_request e target s =
     (if cam_image s = None then
        then_do (emit (LogWarn ''No image received yet'')) (\<lambda>u.
          ret (\<lparr>count = - 1, size_pct = 0\<rparr>, s))
      else if target \<notin> set [''stop'', ''tire'', ''person''] then
        then_do (emit (LogWarn (''Unknown detection target: '' @ target))) (\<lambda>u.
          ret (\<lparr>count = 0, size_pct = 0\<rparr>, s))
      else
        then_do (detect e target s) (\<lambda>st.
          ret (\<lparr>count = int (fst (fst st)), size_pct = snd (fst st)\<rparr>, snd st)))"

section \<open>The node under \<open>rclpy.spin\<close>\<close>

text \<open>
  \<open>main\<close> spins the node on the default single-threaded executor: callbacks run one after
  the other, and an exception that leaves a callback leaves \<open>spin\<close> and ends the process.
\<close>

datatype 'msg event = ImageMsg 'msg | DetectObject string

fun spin :: "'msg env \<Rightarrow> 'msg event list \<Rightarrow> node \<Rightarrow> (response list \<times> node) res" where
  "spin e [] s = ret ([], s)"
| "spin e (ImageMsg msg # evs) s =
     (case image_callback e msg s of (t, s') \<Rightarrow>
        then_do (t, Inr s') (spin e evs))"
| "spin e (DetectObject target # evs) s =
     then_do (handle_detection_request e target s) (\<lambda>r.
     then_do (spin e evs (snd r)) (\<lambda>rest.
       ret (fst r # fst rest, snd rest)))"

definition init_node :: node where
  "init_node = \<lparr>cam_image = None, heap = []\<rparr>"

section \<open>The analyzer as a function of the frame\<close>

text \<open>
  For the proofs: what the loop body decides about one box, given the contents of the
  frame (the effects, and whether the box is counted), and the tally of a list of boxes.
  \<open>analyze_box_gate\<close> and \<open>analyze_boxes_tally\<close> below relate them to the loop on the store.
\<close>

definition gate_box :: "'msg env \<Rightarrow> image \<Rightarrow> string \<Rightarrow> box \<Rightarrow> bool res" where
  "gate_box e frame mode b =
     (let crop = np_crop frame (py_int (y_min b)) (py_int (y_max b))
                   (py_int (x_min b)) (py_int (x_max b))
      in then_do (if mode = ''stop'' then stopsign_ocr_check e crop else ret True) (\<lambda>ok.
           if \<not> ok then ret False
           else then_do (if mode = ''person'' then orange_vest_mask e crop else ret ()) (\<lambda>u.
                  ret True)))"

fun tally_boxes :: "'msg env \<Rightarrow> image \<Rightarrow> nat \<Rightarrow> string \<Rightarrow> box list \<Rightarrow> tally \<Rightarrow> tally res" where
  "tally_boxes e frame sz mode [] acc = ret acc"
| "tally_boxes e frame sz mode (b # bs) acc =
     then_do (gate_box e frame mode b) (\<lambda>counted.
       tally_boxes e frame sz mode bs (if counted then count_step sz b acc else acc))"

text \<open>A detection pass as a function of the contents of the cached frame.\<close>

definition detect_frame :: "'msg env \<Rightarrow> string \<Rightarrow> image \<Rightarrow> tally res" where
  "detect_frame e mode frame =
     then_do (lift (dict_get (model_path e) mode)) (\<lambda>path.
     then_do (lift (dict_get target_ids mode)) (\<lambda>cls.
     then_do (emit (YoloPredict path frame cls)) (\<lambda>u.
     then_do (lift (yolo_predict e path frame cls)) (\<lambda>results.
       tally_boxes e frame (shape0 frame * shape1 frame) mode (concat results) (0, 0)))))"

text \<open>Two states of the store that differ at most in the contents of one array.\<close>

definition unchanged_but :: "addr \<Rightarrow> node \<Rightarrow> node \<Rightarrow> bool" where
  "unchanged_but out s s' =
     (cam_image s' = cam_image s \<and> length (heap s') = length (heap s)
      \<and> (\<forall>i. i \<noteq> out \<longrightarrow> heap s' ! i = heap s ! i))"

fun is_window :: "effect \<Rightarrow> bool" where
  "is_window (PublishDetectionWindow im) = True"
| "is_window x = False"

section \<open>Observing a run\<close>

text \<open>A detection pass is a call of the detector; a frame is delivered when CvBridge decodes it.\<close>

fun is_predict :: "effect \<Rightarrow> bool" where
  "is_predict (YoloPredict path im cls) = True"
| "is_predict x = False"

definition predicts :: "effect list \<Rightarrow> nat" where
  "predicts t = length (filter is_predict t)"

fun stores_frame :: "'msg env \<Rightarrow> 'msg event \<Rightarrow> bool" where
  "stores_frame e (ImageMsg msg) = (case imgmsg_to_cv2 e msg of Inl err \<Rightarrow> False | Inr img \<Rightarrow> True)"
| "stores_frame e (DetectObject target) = False"

section \<open>A concrete environment\<close>

text \<open>The defaults that \<open>__init__\<close> declares.\<close>

definition declared_parameters :: "string \<Rightarrow> pyval" where
  "declared_parameters n =
     (case map_of
        [(''image_topic'', PyStr ''/routecam/image_raw''),
         (''coco_model_path'', PyStr []),
         (''tire_model_path'', PyStr []),
         (''flip_image'', PyBool False),
         (''image_resize'', PyInt 640),
         (''orange.hue_l'', PyInt 20),
         (''orange.hue_h'', PyInt 50),
         (''orange.sat_l'', PyInt 200),
         (''orange.sat_h'', PyInt 255),
         (''orange.val_l'', PyInt 100),
         (''orange.val_h'', PyInt 200)] n of
        Some v \<Rightarrow> v
      | None \<Rightarrow> PyStr [])"

text \<open>
  Stand-ins for the collaborators, used to run the node on concrete inputs. They keep the
  two properties of OpenCV that decide whether a call returns: \<open>cvtColor\<close> raises on an
  array without pixels, and \<open>inRange\<close> raises unless both bounds are numeric.
\<close>

definition demo_cvtColor :: "image \<Rightarrow> color_code \<Rightarrow> error + image" where
  "demo_cvtColor img code =
     (if list_all (\<lambda>row. row = []) img then Inl CvError
      else Inr (map (map (\<lambda>p. (snd (snd p), fst (snd p), fst p))) img))"

definition numeric :: "pyobj \<Rightarrow> int option" where
  "numeric x = (case x of Num i \<Rightarrow> Some i | Obj p \<Rightarrow> None)"

definition numeric3 :: "bound \<Rightarrow> (int \<times> int \<times> int) option" where
  "numeric3 b =
     (case numeric (fst b) of None \<Rightarrow> None | Some x \<Rightarrow>
       (case numeric (fst (snd b)) of None \<Rightarrow> None | Some y \<Rightarrow>
         (case numeric (snd (snd b)) of None \<Rightarrow> None | Some z \<Rightarrow> Some (x, y, z))))"

definition in_range :: "int \<times> int \<times> int \<Rightarrow> int \<times> int \<times> int \<Rightarrow> pixel \<Rightarrow> 8 word" where
  "in_range lo hi p =
     (if fst lo \<le> uint (fst p) \<and> uint (fst p) \<le> fst hi
       \<and> fst (snd lo) \<le> uint (fst (snd p)) \<and> uint (fst (snd p)) \<le> fst (snd hi)
       \<and> snd (snd lo) \<le> uint (snd (snd p)) \<and> uint (snd (snd p)) \<le> snd (snd hi)
      then 255 else 0)"

definition demo_inRange :: "image \<Rightarrow> bound \<Rightarrow> bound \<Rightarrow> error + mask" where
  "demo_inRange hsv lowerb upperb =
     (case numeric3 lowerb of None \<Rightarrow> Inl CvError | Some lo \<Rightarrow>
       (case numeric3 upperb of None \<Rightarrow> Inl CvError | Some hi \<Rightarrow>
          Inr (map (map (in_range lo hi)) hsv)))"

definition demo_resize :: "image \<Rightarrow> int \<times> int \<Rightarrow> int option \<Rightarrow> image" where
  "demo_resize img dsize dst =
     map (\<lambda>r. map (\<lambda>c. img ! (r * shape0 img div nat (snd dsize))
                          ! (c * shape1 img div nat (fst dsize)))
                [0..<nat (fst dsize)])
       [0..<nat (snd dsize)]"

definition demo_env :: "(string \<Rightarrow> pyval) \<Rightarrow> box list list \<Rightarrow> reading list \<Rightarrow> image env" where
  "demo_env ps results readings =
     \<lparr>parameters = ps,
      imgmsg_to_cv2 = (\<lambda>msg. if msg = [] then Inl CvBridgeError else Inr msg),
      cv2_resize = demo_resize,
      cv2_cvtColor = demo_cvtColor,
      cv2_inRange = demo_inRange,
      cv2_line = (\<lambda>im p q. im),
      cv2_putText = (\<lambda>im txt org. im),
      cv2_rectangle = (\<lambda>im p q. im),
      yolo_predict = (\<lambda>path im cls. Inr results),
      readtext = (\<lambda>im. Inr readings),
      str_round2 = (\<lambda>c. [])\<rparr>"

definition box_xyxy :: "real \<Rightarrow> real \<Rightarrow> real \<Rightarrow> real \<Rightarrow> box" where
  "box_xyxy x0 y0 x1 y1 =
     \<lparr>x_min = x0, y_min = y0, x_max = x1, y_max = y1,
      x_center = (x0 + x1) / 2, y_center = (y0 + y1) / 2,
      box_width = x1 - x0, box_height = y1 - y0, conf = 9 / 10\<rparr>"

definition blank :: "nat \<Rightarrow> nat \<Rightarrow> image" where
  "blank h w = replicate h (replicate w (7, 7, 7))"

definition cached :: "image \<Rightarrow> node" where
  "cached img = \<lparr>cam_image = Some 0, heap = [img]\<rparr>"

text \<open>The declared parameters with the letterbox resize switched off.\<close>

definition no_resize :: "string \<Rightarrow> pyval" where
  "no_resize = declared_parameters(''image_resize'' := PyInt 0)"

text \<open>A detector that reports one box, the top left pixel, whatever it is shown.\<close>

definition one_box_env :: "image env" where
  "one_box_env = demo_env no_resize [[box_xyxy 0 0 1 1]] []"

text \<open>Frames for running the preprocessor: one wide row, and a frame without symmetry.\<close>

definition wide :: image where
  "wide = [[(1, 1, 1), (2, 2, 2), (3, 3, 3)]]"

definition fimg :: image where
  "fimg = [[(1, 1, 1), (2, 2, 2), (3, 3, 3)], [(4, 4, 4), (5, 5, 5), (6, 6, 6)]]"

definition fenv :: "image env" where
  "fenv = demo_env (no_resize(''flip_image'' := PyBool True)) [] []"

text \<open>
  A detector that reports the two diagonal pixels of a 2 by 2 frame, a reader that reads
  STOP everywhere, and drawing calls that paint the whole array red.
\<close>

definition paint :: "image \<Rightarrow> image" where
  "paint im = map (map (\<lambda>p. (0, 0, 255))) im"

definition two_box_env :: "image env" where
  "two_box_env = demo_env no_resize [[box_xyxy 0 0 1 1, box_xyxy 1 1 2 2]] [([], ''STOP'', 1)]"

section \<open>Laws of sequencing\<close>

lemma then_do_ret [simp]: "then_do (ret a) f = f a"
  by (simp add: then_do_def ret_def split: prod.splits)

lemma then_do_emit [simp]: "then_do (emit x) f = (x # fst (f ()), snd (f ()))"
  by (simp add: then_do_def emit_def split: prod.splits)

lemma then_do_lift_Inl [simp]: "then_do (lift (Inl err)) f = ([], Inl err)"
  by (simp add: then_do_def lift_def)

lemma then_do_lift_Inr [simp]: "then_do (lift (Inr a)) f = f a"
  by (simp add: then_do_def lift_def split: prod.splits)

lemma then_do_Inl [simp]: "then_do (t, Inl err) f = (t, Inl err)"
  by (simp add: then_do_def)

lemma then_do_Inr [simp]: "then_do (t, Inr a) f = (t @ fst (f a), snd (f a))"
  by (simp add: then_do_def split: prod.splits)

lemma fst_then_do:
  "fst (then_do m f) = fst m @ (case snd m of Inl err \<Rightarrow> [] | Inr a \<Rightarrow> fst (f a))"
  by (cases m) (auto simp: then_do_def split: sum.splits prod.splits)

lemma snd_then_do:
  "snd (then_do m f) = (case snd m of Inl err \<Rightarrow> Inl err | Inr a \<Rightarrow> snd (f a))"
  by (cases m) (auto simp: then_do_def split: sum.splits prod.splits)

lemma fst_ret [simp]: "fst (ret a) = []"
  by (simp add: ret_def)

lemma snd_ret [simp]: "snd (ret a) = Inr a"
  by (simp add: ret_def)

text \<open>Unfolding the node and the concrete environment, to run them on an input.\<close>

lemmas node_defs = handle_detection_request_def detect_def analyze_results_def analyze_box_def
  count_box_def count_step_def area_pct_def draw_def store_def deref_def alloc_def dict_get_def
  model_path_def target_ids_def get_parameter_def mark_counted_def mark_fake_def crop_box_def
  np_crop_def py_slice_def slice_index_def py_int_def shape0_def shape1_def
  stopsign_ocr_check_def orange_vest_mask_def image_callback_def integer_value_def bool_value_def

lemmas demo_defs = demo_env_def declared_parameters_def demo_cvtColor_def demo_inRange_def
  numeric3_def numeric_def box_xyxy_def blank_def cached_def init_node_def no_resize_def
  one_box_env_def numeral_2_eq_2

section \<open>The Stop-Sign Validator (C1)\<close>



lemma py_replace_id: "old \<notin> set s \<Longrightarrow> py_replace s old new = s"
  by (induction s) (auto simp: py_replace_def)









text \<open>
  The replacement itself has no effect on the decision: \<open>ST0P\<close>, which the normalising
  validator accepts, is rejected.
\<close>

lemma stopsign_ocr_check_ST0P:
  "snd (stopsign_ocr_check (demo_env declared_parameters [] [([], ''ST0P'', 1)]) (blank 2 2))
     = Inr False
   \<and> validate_spec [''ST0P'']"
  by (simp add: stopsign_ocr_check_def demo_env_def demo_cvtColor_def blank_def
      validate_spec_def py_upper_def py_upper_char_def py_replace_def numeral_2_eq_2)

section \<open>The Detection Request Handler without a frame (C3)\<close>

text \<open>
  C3. A request with a mode in {stop, tire, person} made while no frame is cached is
  answered with count -1 and size 0.0; the only effect is the warning, so the detector is
  not called, and the node is left as it was.
\<close>

theorem handle_no_frame:
  assumes "cam_image s = None" and "target \<in> {''stop'', ''tire'', ''person''}"
  shows "handle_detection_request e target s
           = ([LogWarn ''No image received yet''], Inr (\<lparr>count = - 1, size_pct = 0\<rparr>, s))"
  using assms by (simp add: handle_detection_request_def)

theorem handle_no_frame_witness:
  "cam_image init_node = None \<and> ''tire'' \<in> {''stop'', ''tire'', ''person''}
   \<and> handle_detection_request (demo_env declared_parameters [] []) ''tire'' init_node
       = ([LogWarn ''No image received yet''], Inr (\<lparr>count = - 1, size_pct = 0\<rparr>, init_node))"
proof -
  have a: "cam_image init_node = None"
    by (simp add: init_node_def)
  have b: "''tire'' \<in> {''stop'', ''tire'', ''person''}"
    by simp
  show ?thesis
    using a b handle_no_frame [OF a b, of "demo_env declared_parameters [] []"] by simp
qed

section \<open>Detection passes of a run\<close>

lemma predicts_append [simp]: "predicts (t @ u) = predicts t + predicts u"
  by (simp add: predicts_def)

lemma predicts_Nil [simp]: "predicts [] = 0"
  by (simp add: predicts_def)

lemma predicts_Cons [simp]: "predicts (x # t) = (if is_predict x then 1 else 0) + predicts t"
  by (simp add: predicts_def)

lemma predicts_then_do:
  "predicts (fst (then_do m f))
     = predicts (fst m) + (case snd m of Inl err \<Rightarrow> 0 | Inr a \<Rightarrow> predicts (fst (f a)))"
  by (simp add: fst_then_do split: sum.splits)

lemma predicts_lift [simp]: "predicts (fst (lift r)) = 0"
  by (simp add: lift_def)

lemma predicts_scan_readings [simp]: "predicts (fst (scan_readings rs)) = 0"
  by (induction rs) (auto simp: Let_def split: prod.splits)

lemma predicts_scan_readings_eq: "scan_readings rs = (t, b) \<Longrightarrow> predicts t = 0"
  using predicts_scan_readings [of rs] by simp

lemma predicts_stopsign [simp]: "predicts (fst (stopsign_ocr_check e im)) = 0"
  by (cases "cv2_cvtColor e im COLOR_BGR2RGB";
      cases "readtext e (projr (cv2_cvtColor e im COLOR_BGR2RGB))")
     (auto simp: stopsign_ocr_check_def predicts_scan_readings_eq split: prod.splits)

lemma predicts_vest [simp]: "predicts (fst (orange_vest_mask e im)) = 0"
  by (auto simp: orange_vest_mask_def Let_def predicts_then_do emit_def split: sum.splits)

lemma predicts_count_box [simp]: "predicts (fst (count_box e im out sz mode b st)) = 0"
  by (auto simp: count_box_def predicts_then_do split: sum.splits)

lemma predicts_analyze_box [simp]: "predicts (fst (analyze_box e im out sz mode b st)) = 0"
  by (auto simp: analyze_box_def predicts_then_do split: sum.splits)

lemma predicts_analyze_boxes [simp]:
  "predicts (fst (analyze_boxes e im out sz mode bs st)) = 0"
  by (induction bs arbitrary: st) (auto simp: predicts_then_do split: sum.splits)

lemma predicts_analyze_loop [simp]:
  "predicts (fst (analyze_loop e im out sz mode rs st)) = 0"
  by (induction rs arbitrary: st) (auto simp: predicts_then_do split: sum.splits)

lemma predicts_analyze_results [simp]: "predicts (fst (analyze_results e rs im mode s)) = 0"
  by (auto simp: analyze_results_def Let_def predicts_then_do emit_def
      split: sum.splits prod.splits)

lemma predicts_detect: "predicts (fst (detect e mode s)) \<le> 1"
  by (auto simp: detect_def predicts_then_do emit_def split: sum.splits prod.splits)

lemma detect_Inr_clears:
  assumes "detect e mode s = (t, Inr (tally, s'))"
  shows "cam_image s' = None"
proof -
  have "snd (detect e mode s) = Inr (tally, s')"
    using assms by simp
  then show ?thesis
    by (auto simp: detect_def snd_then_do lift_def emit_def
        split: sum.splits prod.splits option.splits)
qed

lemma predicts_handle:
  "predicts (fst (handle_detection_request e target s)) \<le> (if cam_image s = None then 0 else 1)"
  using predicts_detect [of e target s]
  by (auto simp: handle_detection_request_def predicts_then_do split: sum.splits)

lemma handle_Inr_cases:
  assumes "handle_detection_request e target s = (t, Inr (r, s'))"
  shows "(s' = s \<and> predicts t = 0) \<or> cam_image s' = None"
proof (cases "cam_image s = None \<or> target \<notin> set [''stop'', ''tire'', ''person'']")
  case True
  then show ?thesis
    using assms by (auto simp: handle_detection_request_def split: if_splits)
next
  case False
  then have "handle_detection_request e target s
      = then_do (detect e target s) (\<lambda>st.
          ret (\<lparr>count = int (fst (fst st)), size_pct = snd (fst st)\<rparr>, snd st))"
    by (auto simp: handle_detection_request_def)
  with assms obtain t' tally where "detect e target s = (t', Inr (tally, s'))"
    by (cases "detect e target s") (auto simp: then_do_def ret_def split: sum.splits prod.splits)
  then have "cam_image s' = None"
    by (rule detect_Inr_clears)
  then show ?thesis ..
qed

lemma predicts_spin:
  "predicts (fst (spin e evs s))
     \<le> (if cam_image s = None then 0 else 1) + length (filter (stores_frame e) evs)"
proof (induction evs arbitrary: s)
  case Nil
  then show ?case by simp
next
  case (Cons ev evs)
  show ?case
  proof (cases ev)
    case (ImageMsg msg)
    show ?thesis
    proof (cases "imgmsg_to_cv2 e msg")
      case (Inl err)
      then show ?thesis
        using Cons.IH [of s] ImageMsg by (simp add: image_callback_def)
    next
      case (Inr img)
      obtain t s' where cb: "image_callback e msg s = (t, s')"
        by (cases "image_callback e msg s")
      have "t = []"
        using cb Inr by (auto simp: image_callback_def Let_def split: prod.splits)
      then show ?thesis
        using Cons.IH [of s'] ImageMsg Inr cb by (simp split: if_splits)
    qed
  next
    case (DetectObject target)
    obtain t r where h: "handle_detection_request e target s = (t, r)"
      by (cases "handle_detection_request e target s")
    have pt: "predicts t \<le> (if cam_image s = None then 0 else 1)"
      using predicts_handle [of e target s] h by simp
    show ?thesis
    proof (cases r)
      case (Inl err)
      then show ?thesis
        using pt h DetectObject by simp
    next
      case (Inr rs)
      obtain resp s' where rs: "rs = (resp, s')"
        by (cases rs)
      have sp: "predicts (fst (spin e (ev # evs) s))
                  = predicts t + predicts (fst (spin e evs s'))"
        using h Inr rs DetectObject by (simp add: fst_then_do split: sum.splits)
      from handle_Inr_cases [of e target s t resp s'] h Inr rs
      have "(s' = s \<and> predicts t = 0) \<or> cam_image s' = None"
        by simp
      then show ?thesis
        using sp pt Cons.IH [of s'] DetectObject by (auto split: if_splits)
    qed
  qed
qed

lemma handle_tire_demo:
  "handle_detection_request one_box_env ''tire'' (cached (blank 2 2))
     = ([YoloPredict (PyStr []) (blank 2 2) 0, PublishDetectionWindow (blank 2 2)],
        Inr (\<lparr>count = 1, size_pct = 25\<rparr>,
             \<lparr>cam_image = None, heap = [blank 2 2, blank 2 2, blank 2 2]\<rparr>))"
  by (simp add: node_defs demo_defs Let_def)

section \<open>A request with an unknown mode (C2)\<close>

lemma dict_get_model_path:
  "mode \<in> {''stop'', ''tire'', ''person''} \<Longrightarrow> \<exists>p. dict_get (model_path e) mode = Inr p"
  by (auto simp: dict_get_def model_path_def)

lemma dict_get_target_ids:
  "mode \<in> {''stop'', ''tire'', ''person''} \<Longrightarrow> \<exists>c. dict_get target_ids mode = Inr c"
  by (auto simp: dict_get_def target_ids_def)

text \<open>A detection pass starts by showing the detector the contents of the cached frame.\<close>

lemma detect_starts:
  assumes "cam_image s = Some a" and "mode \<in> {''stop'', ''tire'', ''person''}"
  shows "\<exists>path cls t. fst (detect e mode s) = YoloPredict path (deref s a) cls # t"
proof -
  obtain p where p: "dict_get (model_path e) mode = Inr p"
    using dict_get_model_path [OF assms(2)] by blast
  obtain c where c: "dict_get target_ids mode = Inr c"
    using dict_get_target_ids [OF assms(2)] by blast
  show ?thesis
    using assms(1) p c
    by (simp add: detect_def alloc_def deref_def split: prod.splits)
qed

text \<open>
  C2, as stated: a request with a mode outside {stop, tire, person} is answered with
  (0, 0.0) whether or not a frame is cached. With no frame cached the answer is (-1, 0.0):
  the handler tests the cache before it tests the mode.
\<close>

theorem unknown_mode_without_frame:
  "handle_detection_request (demo_env declared_parameters [] []) ''banana'' init_node
     = ([LogWarn ''No image received yet''],
        Inr (\<lparr>count = - 1, size_pct = 0\<rparr>, init_node))"
  by (simp add: handle_detection_request_def init_node_def)

text \<open>
  C2, amended: a request with a mode outside {stop, tire, person} is answered at once,
  with (0, 0.0) when a frame is cached and with (-1, 0.0) when none is; its only effect is
  a warning and the node, the cache included, is left as it was. So a following request
  with a valid mode is answered as if it had come first: the detector is shown the
  contents of the same cached frame.
\<close>

theorem unknown_mode_keeps_cache:
  assumes "target \<notin> {''stop'', ''tire'', ''person''}"
  shows "handle_detection_request e target s
           = (if cam_image s = None
              then ([LogWarn ''No image received yet''], Inr (\<lparr>count = - 1, size_pct = 0\<rparr>, s))
              else ([LogWarn (''Unknown detection target: '' @ target)],
                    Inr (\<lparr>count = 0, size_pct = 0\<rparr>, s)))
         \<and> (cam_image s = Some a \<and> valid \<in> {''stop'', ''tire'', ''person''} \<longrightarrow>
              snd (spin e [DetectObject target, DetectObject valid] s)
                = (case snd (handle_detection_request e valid s) of
                     Inl err \<Rightarrow> Inl err
                   | Inr r \<Rightarrow> Inr ([\<lparr>count = 0, size_pct = 0\<rparr>, fst r], snd r))
              \<and> (\<exists>path cls t. fst (handle_detection_request e valid s)
                    = YoloPredict path (deref s a) cls # t))"
proof -
  have h: "handle_detection_request e target s
           = (if cam_image s = None
              then ([LogWarn ''No image received yet''], Inr (\<lparr>count = - 1, size_pct = 0\<rparr>, s))
              else ([LogWarn (''Unknown detection target: '' @ target)],
                    Inr (\<lparr>count = 0, size_pct = 0\<rparr>, s)))"
    using assms by (simp add: handle_detection_request_def)
  have "snd (spin e [DetectObject target, DetectObject valid] s)
          = (case snd (handle_detection_request e valid s) of
               Inl err \<Rightarrow> Inl err
             | Inr r \<Rightarrow> Inr ([\<lparr>count = 0, size_pct = 0\<rparr>, fst r], snd r))"
    if "cam_image s = Some a"
    using that h by (simp add: snd_then_do split: sum.splits)
  moreover have "\<exists>path cls t. fst (handle_detection_request e valid s)
                    = YoloPredict path (deref s a) cls # t"
    if "cam_image s = Some a" and "valid \<in> {''stop'', ''tire'', ''person''}"
    using that detect_starts [OF that, of e]
    by (auto simp: handle_detection_request_def fst_then_do split: sum.splits)
  ultimately show ?thesis
    using h by blast
qed

theorem unknown_mode_keeps_cache_witness:
  "''banana'' \<notin> {''stop'', ''tire'', ''person''}
   \<and> handle_detection_request one_box_env ''banana'' (cached (blank 2 2))
       = ([LogWarn ''Unknown detection target: banana''],
          Inr (\<lparr>count = 0, size_pct = 0\<rparr>, cached (blank 2 2)))
   \<and> snd (spin one_box_env [DetectObject ''banana'', DetectObject ''tire''] (cached (blank 2 2)))
       = Inr ([\<lparr>count = 0, size_pct = 0\<rparr>, \<lparr>count = 1, size_pct = 25\<rparr>],
              \<lparr>cam_image = None, heap = [blank 2 2, blank 2 2, blank 2 2]\<rparr>)"
proof -
  have a: "''banana'' \<notin> {''stop'', ''tire'', ''person''}"
    by simp
  have c: "cam_image (cached (blank 2 2)) = Some 0"
    by (simp add: cached_def)
  show ?thesis
    using a unknown_mode_keeps_cache [OF a, of one_box_env "cached (blank 2 2)" 0 "''tire''"] c
    by (simp add: handle_tire_demo)
qed

section \<open>The Frame Cache is consumed once (C4)\<close>

text \<open>
  C4. A request that ran a detection pass and was answered leaves the cache empty, so
  the next request, whatever its mode, is answered with (-1, 0.0) without a pass. As long
  as no new frame is delivered, the requests of a run make at most one detection pass
  between them; and over a whole run from the initial node there are at most as many
  passes as delivered frames. (An exception in a pass ends \<open>spin\<close>, and the run with it.)
\<close>

theorem consume_once:
  "(handle_detection_request e target s = (t, Inr (r, s')) \<and> 0 < predicts t
      \<longrightarrow> cam_image s' = None
          \<and> handle_detection_request e target' s'
              = ([LogWarn ''No image received yet''], Inr (\<lparr>count = - 1, size_pct = 0\<rparr>, s')))
   \<and> (list_all (\<lambda>ev. \<not> stores_frame e ev) evs \<longrightarrow> predicts (fst (spin e evs s)) \<le> 1)
   \<and> predicts (fst (spin e evs init_node)) \<le> length (filter (stores_frame e) evs)"
proof -
  have a: "cam_image s' = None
          \<and> handle_detection_request e target' s'
              = ([LogWarn ''No image received yet''], Inr (\<lparr>count = - 1, size_pct = 0\<rparr>, s'))"
    if "handle_detection_request e target s = (t, Inr (r, s'))" and "0 < predicts t"
  proof -
    from handle_Inr_cases [OF that(1)] that(2) have "cam_image s' = None"
      by auto
    then show ?thesis
      by (simp add: handle_detection_request_def)
  qed
  have b: "predicts (fst (spin e evs s)) \<le> 1" if "list_all (\<lambda>ev. \<not> stores_frame e ev) evs"
  proof -
    from that have "filter (stores_frame e) evs = []"
      by (simp add: list_all_iff filter_empty_conv)
    then show ?thesis
      using predicts_spin [of e evs s] by (simp split: if_splits)
  qed
  have c: "predicts (fst (spin e evs init_node)) \<le> length (filter (stores_frame e) evs)"
    using predicts_spin [of e evs init_node] by (simp add: init_node_def)
  from a b c show ?thesis
    by blast
qed

theorem consume_once_witness:
  "handle_detection_request one_box_env ''tire'' (cached (blank 2 2))
     = ([YoloPredict (PyStr []) (blank 2 2) 0, PublishDetectionWindow (blank 2 2)],
        Inr (\<lparr>count = 1, size_pct = 25\<rparr>,
             \<lparr>cam_image = None, heap = [blank 2 2, blank 2 2, blank 2 2]\<rparr>))
   \<and> handle_detection_request one_box_env ''person''
        \<lparr>cam_image = None, heap = [blank 2 2, blank 2 2, blank 2 2]\<rparr>
     = ([LogWarn ''No image received yet''],
        Inr (\<lparr>count = - 1, size_pct = 0\<rparr>,
             \<lparr>cam_image = None, heap = [blank 2 2, blank 2 2, blank 2 2]\<rparr>))
   \<and> list_all (\<lambda>ev. \<not> stores_frame one_box_env ev) [DetectObject ''tire'', DetectObject ''tire'']
   \<and> predicts (fst (spin one_box_env [DetectObject ''tire'', DetectObject ''tire'']
        (cached (blank 2 2)))) = 1
   \<and> predicts (fst (spin one_box_env
        [ImageMsg (blank 2 2), DetectObject ''tire'', DetectObject ''tire''] init_node)) = 1"
proof -
  let ?t = "[YoloPredict (PyStr []) (blank 2 2) 0, PublishDetectionWindow (blank 2 2)]"
  let ?s' = "\<lparr>cam_image = None, heap = [blank 2 2, blank 2 2, blank 2 2]\<rparr>"
  have p: "0 < predicts ?t"
    by simp
  have n: "list_all (\<lambda>ev. \<not> stores_frame one_box_env ev)
             [DetectObject ''tire'', DetectObject ''tire'']"
    by simp
  have s1: "predicts (fst (spin one_box_env [DetectObject ''tire'', DetectObject ''tire'']
        (cached (blank 2 2)))) = 1"
    by (simp add: node_defs demo_defs Let_def)
  have s2: "predicts (fst (spin one_box_env
        [ImageMsg (blank 2 2), DetectObject ''tire'', DetectObject ''tire''] init_node)) = 1"
    by (simp add: node_defs demo_defs Let_def)
  show ?thesis
    using consume_once [of one_box_env "''tire''" "cached (blank 2 2)" ?t
        "\<lparr>count = 1, size_pct = 25\<rparr>" ?s' "''person''"
        "[DetectObject ''tire'', DetectObject ''tire'']"]
      handle_tire_demo p n s1 s2
    by simp
qed

section \<open>The letterbox resize (C5)\<close>

lemma rectangular_nth: "rectangular img h w \<Longrightarrow> i < h \<Longrightarrow> length (img ! i) = w"
  by (auto simp: rectangular_def list_all_length)

lemma rectangular_shape: "rectangular img h w \<Longrightarrow> 0 < h \<Longrightarrow> shape0 img = h \<and> shape1 img = w"
  by (cases img) (auto simp: rectangular_def shape0_def shape1_def)

lemma letterbox_canvas_eq:
  assumes "rectangular img h w" and "0 < h"
  shows "letterbox_canvas img
     = replicate ((max h w - h) div 2) (replicate (max h w) (0, 0, 0))
       @ map (\<lambda>src. replicate ((max h w - w) div 2) (0, 0, 0) @ src
                     @ replicate (max h w - ((max h w - w) div 2 + w)) (0, 0, 0)) img
       @ replicate (max h w - ((max h w - h) div 2 + h)) (replicate (max h w) (0, 0, 0))"
proof -
  let ?d = "max h w"
  let ?y = "(?d - h) div 2"
  let ?x = "(?d - w) div 2"
  let ?row = "replicate ?d (0, 0, 0) :: pixel list"
  have sh: "shape0 img = h" "shape1 img = w" and len: "length img = h"
    using rectangular_shape [OF assms] assms(1) by (simp_all add: rectangular_def)
  have y: "?y + h \<le> ?d" and x: "?x + w \<le> ?d"
    by auto
  have rows: "\<And>src. src \<in> set img \<Longrightarrow> length src = w"
    using assms(1) by (simp add: rectangular_def list_all_iff)
  have top: "take ?y (replicate ?d ?row) = replicate ?y ?row"
    using y by (simp add: min_def)
  have mid: "take (length img) (drop ?y (replicate ?d ?row)) = replicate h ?row"
    using y len by (simp add: min_def)
  have bot: "drop (?y + length img) (replicate ?d ?row) = replicate (?d - (?y + h)) ?row"
    using len by simp
  have zipped: "map2 (\<lambda>row src. take ?x row @ src @ drop (?x + length src) row)
                  (replicate h ?row) img
        = map (\<lambda>src. replicate ?x (0, 0, 0) @ src @ replicate (?d - (?x + w)) (0, 0, 0)) img"
    using x rows len by (auto simp: zip_replicate1 min_def)
  show ?thesis
    unfolding letterbox_canvas_def np_assign_block_def np_zeros_def Let_def sh
    by (simp only: top mid bot zipped)
qed

lemma letterbox_canvas_rectangular:
  assumes "rectangular img h w" and "0 < h"
  shows "rectangular (letterbox_canvas img) (max h w) (max h w)"
proof -
  have rows: "\<And>src. src \<in> set img \<Longrightarrow> length src = w"
    using assms(1) by (simp add: rectangular_def list_all_iff)
  have len: "length img = h"
    using assms(1) by (simp add: rectangular_def)
  show ?thesis
    unfolding letterbox_canvas_eq [OF assms] rectangular_def
    using rows len by (auto simp: list_all_iff)
qed

lemma letterbox_canvas_nth_aux:
  assumes "rectangular img h w" and "0 < h" and "r < d" and "c < d"
    and d: "d = max h w" and y: "y = (d - h) div 2" and x: "x = (d - w) div 2"
  shows "letterbox_canvas img ! r ! c
     = (if y \<le> r \<and> r < y + h \<and> x \<le> c \<and> c < x + w then img ! (r - y) ! (c - x)
        else (0, 0, 0))"
proof -
  have len: "length img = h"
    using assms(1) by (simp add: rectangular_def)
  have w: "\<And>i. i < h \<Longrightarrow> length (img ! i) = w"
    using rectangular_nth [OF assms(1)] by simp
  have yd: "y + h \<le> d" and xd: "x + w \<le> d"
    unfolding d y x by auto
  have eq: "letterbox_canvas img
     = replicate y (replicate d (0, 0, 0))
       @ map (\<lambda>src. replicate x (0, 0, 0) @ src @ replicate (d - (x + w)) (0, 0, 0)) img
       @ replicate (d - (y + h)) (replicate d (0, 0, 0))"
    unfolding d y x by (rule letterbox_canvas_eq [OF assms(1,2)])
  consider (top) "r < y" | (mid) "y \<le> r" "r < y + h" | (bot) "y + h \<le> r"
    by linarith
  then show ?thesis
  proof cases
    case top
    then show ?thesis
      using assms(4) by (simp add: eq nth_append)
  next
    case mid
    then have i: "r - y < h"
      by linarith
    have row: "letterbox_canvas img ! r
       = replicate x (0, 0, 0) @ img ! (r - y) @ replicate (d - (x + w)) (0, 0, 0)"
      using mid i len by (simp add: eq nth_append)
    show ?thesis
      using mid assms(4) w [OF i] xd by (auto simp: row nth_append)
  next
    case bot
    then have nb: "\<not> r < y" "\<not> r - y < h" "\<not> r < y + h"
      by linarith+
    have "r - y - h < d - (y + h)"
      using bot assms(3) by linarith
    then show ?thesis
      using assms(4) len nb by (simp add: eq nth_append)
  qed
qed

lemma letterbox_canvas_nth:
  assumes "rectangular img h w" and "0 < h" and "r < max h w" and "c < max h w"
  shows "letterbox_canvas img ! r ! c
     = (if (max h w - h) div 2 \<le> r \<and> r < (max h w - h) div 2 + h
           \<and> (max h w - w) div 2 \<le> c \<and> c < (max h w - w) div 2 + w
        then img ! (r - (max h w - h) div 2) ! (c - (max h w - w) div 2)
        else (0, 0, 0))"
  using assms by (rule letterbox_canvas_nth_aux) (rule refl)+

lemma demo_resize_rectangular:
  "rectangular (demo_resize im (ts, ts) d) (nat ts) (nat ts)"
  by (simp add: demo_resize_def rectangular_def list_all_iff)


text \<open>
  C5. For a frame of \<open>h\<close> rows and \<open>w\<close> columns: if \<open>h = w\<close> the frame itself is resized to
  (target, target); otherwise the canvas is resized, and the canvas is a square of side
  \<open>max h w\<close> that holds the frame at the offsets \<open>((side - h) div 2, (side - w) div 2)\<close> and
  zero everywhere else. The result is what \<open>cv2.resize\<close> returns for the size
  (target, target): it is target by target whenever \<open>cv2.resize\<close> returns arrays of the size
  it is asked for.
\<close>

theorem letterbox_resize_square_canvas:
  assumes "rectangular img h w" and "0 < h"
  shows "(h = w \<longrightarrow> letterbox_resize e img (ts, ts) = cv2_resize e img (ts, ts) (Some INTER_AREA))
       \<and> (h \<noteq> w \<longrightarrow>
            letterbox_resize e img (ts, ts) = cv2_resize e (letterbox_canvas img) (ts, ts) None)
       \<and> rectangular (letterbox_canvas img) (max h w) (max h w)
       \<and> (\<forall>r<max h w. \<forall>c<max h w.
            letterbox_canvas img ! r ! c
              = (if (max h w - h) div 2 \<le> r \<and> r < (max h w - h) div 2 + h
                    \<and> (max h w - w) div 2 \<le> c \<and> c < (max h w - w) div 2 + w
                 then img ! (r - (max h w - h) div 2) ! (c - (max h w - w) div 2)
                 else (0, 0, 0)))
       \<and> ((\<forall>im d. rectangular (cv2_resize e im (ts, ts) d) (nat ts) (nat ts))
            \<longrightarrow> rectangular (letterbox_resize e img (ts, ts)) (nat ts) (nat ts))"
proof -
  have sh: "shape0 img = h" "shape1 img = w"
    using rectangular_shape [OF assms] by simp_all
  have a: "h = w \<longrightarrow> letterbox_resize e img (ts, ts) = cv2_resize e img (ts, ts) (Some INTER_AREA)"
    by (simp add: letterbox_resize_def sh)
  have b: "h \<noteq> w \<longrightarrow>
            letterbox_resize e img (ts, ts) = cv2_resize e (letterbox_canvas img) (ts, ts) None"
    by (simp add: letterbox_resize_def sh)
  have c: "rectangular (letterbox_canvas img) (max h w) (max h w)"
    using assms by (rule letterbox_canvas_rectangular)
  have d: "\<forall>r<max h w. \<forall>c<max h w.
            letterbox_canvas img ! r ! c
              = (if (max h w - h) div 2 \<le> r \<and> r < (max h w - h) div 2 + h
                    \<and> (max h w - w) div 2 \<le> c \<and> c < (max h w - w) div 2 + w
                 then img ! (r - (max h w - h) div 2) ! (c - (max h w - w) div 2)
                 else (0, 0, 0))"
    using letterbox_canvas_nth [OF assms] by blast
  have f: "(\<forall>im d. rectangular (cv2_resize e im (ts, ts) d) (nat ts) (nat ts))
            \<longrightarrow> rectangular (letterbox_resize e img (ts, ts)) (nat ts) (nat ts)"
    by (simp add: letterbox_resize_def Let_def)
  from a b c d f show ?thesis
    by blast
qed

lemma wide_canvas:
  "letterbox_canvas wide = [[(0, 0, 0), (0, 0, 0), (0, 0, 0)], [(1, 1, 1), (2, 2, 2), (3, 3, 3)],
      [(0, 0, 0), (0, 0, 0), (0, 0, 0)]]"
  by (simp add: letterbox_canvas_def np_assign_block_def np_zeros_def wide_def shape0_def
      shape1_def Let_def eval_nat_numeral)

lemma demo_resize_3:
  "demo_resize [[a, b, c], [d, e, f], [g, h, i]] (3, 3) dst = [[a, b, c], [d, e, f], [g, h, i]]"
  by (simp add: demo_resize_def shape0_def shape1_def upt_rec)

lemma demo_resize_1_3:
  "demo_resize [[a]] (3, 3) dst = [[a, a, a], [a, a, a], [a, a, a]]"
  by (simp add: demo_resize_def shape0_def shape1_def upt_rec)

theorem letterbox_resize_square_canvas_witness:
  "rectangular wide 1 3
   \<and> letterbox_resize (demo_env declared_parameters [] []) wide (3, 3)
       = [[(0, 0, 0), (0, 0, 0), (0, 0, 0)], [(1, 1, 1), (2, 2, 2), (3, 3, 3)],
          [(0, 0, 0), (0, 0, 0), (0, 0, 0)]]
   \<and> rectangular (letterbox_resize (demo_env declared_parameters [] []) wide (3, 3)) 3 3
   \<and> rectangular [[(5, 5, 5)]] 1 1
   \<and> letterbox_resize (demo_env declared_parameters [] []) [[(5, 5, 5)]] (3, 3)
       = [[(5, 5, 5), (5, 5, 5), (5, 5, 5)], [(5, 5, 5), (5, 5, 5), (5, 5, 5)],
          [(5, 5, 5), (5, 5, 5), (5, 5, 5)]]"
proof -
  let ?e = "demo_env declared_parameters [] [] :: image env"
  have r1: "rectangular wide 1 3"
    by (simp add: rectangular_def wide_def)
  have r2: "rectangular [[(5, 5, 5)]] 1 (1::nat)"
    by (simp add: rectangular_def)
  have rs: "\<forall>im d. rectangular (cv2_resize ?e im (3, 3) d) (nat 3) (nat 3)"
    using demo_resize_rectangular [of _ 3] by (simp add: demo_env_def)
  have cv: "cv2_resize ?e = demo_resize"
    by (simp add: demo_env_def)
  show ?thesis
    using letterbox_resize_square_canvas [OF r1, of ?e 3]
      letterbox_resize_square_canvas [OF r2, of ?e 3] r1 r2 rs
    by (simp add: cv wide_canvas demo_resize_3 demo_resize_1_3)
qed

section \<open>The flip (C6)\<close>



lemma rev_as_map: "rev xs = map (\<lambda>j. xs ! (length xs - 1 - j)) [0..<length xs]"
  by (rule nth_equalityI) (auto simp: rev_nth)

lemma double_flip: "cv2_flip (cv2_flip img 0) 1 = map rev (rev img)"
  by (simp add: cv2_flip_def)

lemma double_flip_rotate180:
  assumes "rectangular img h w"
  shows "cv2_flip (cv2_flip img 0) 1 = rotate180 img"
proof (cases "h = 0")
  case True
  then show ?thesis
    using assms by (simp add: double_flip rotate180_def rectangular_def shape0_def)
next
  case False
  then have sh: "shape0 img = h" "shape1 img = w"
    using rectangular_shape [OF assms] by simp_all
  have len: "length img = h"
    using assms by (simp add: rectangular_def)
  show ?thesis
  proof (rule nth_equalityI)
    show "length (cv2_flip (cv2_flip img 0) 1) = length (rotate180 img)"
      by (simp add: double_flip rotate180_def sh len)
  next
    fix i assume "i < length (cv2_flip (cv2_flip img 0) 1)"
    then have i: "i < h"
      by (simp add: double_flip len)
    then have w: "length (img ! (h - 1 - i)) = w"
      using rectangular_nth [OF assms, of "h - 1 - i"] by simp
    have "cv2_flip (cv2_flip img 0) 1 ! i = rev (img ! (h - 1 - i))"
      using i by (simp add: double_flip len rev_nth)
    also have "\<dots> = map (\<lambda>j. img ! (h - 1 - i) ! (w - 1 - j)) [0..<w]"
      using rev_as_map [of "img ! (h - 1 - i)"] w by simp
    also have "\<dots> = rotate180 img ! i"
      using i by (simp add: rotate180_def sh)
    finally show "cv2_flip (cv2_flip img 0) 1 ! i = rotate180 img ! i" .
  qed
qed

lemma rotate180_rectangular:
  "rectangular img h w \<Longrightarrow> rectangular (map rev (rev img)) h w"
  by (auto simp: rectangular_def list_all_iff)

lemma double_flip_nth:
  assumes "rectangular img h w" and "i < h" and "j < w"
  shows "cv2_flip (cv2_flip img 0) 1 ! i ! j = img ! (h - 1 - i) ! (w - 1 - j)"
proof -
  have len: "length img = h"
    using assms by (simp add: rectangular_def)
  have w: "length (img ! (h - 1 - i)) = w"
    using rectangular_nth [OF assms(1), of "h - 1 - i"] assms(2) by simp
  show ?thesis
    using assms(2,3) w by (simp add: double_flip len rev_nth)
qed

lemma not_a_mirror:
  "cv2_flip (cv2_flip [[1, 2], [3, 4 :: nat]] 0) 1 = [[4, 3], [2, 1]]
   \<and> cv2_flip [[1, 2], [3, 4 :: nat]] 1 = [[2, 1], [4, 3]]
   \<and> cv2_flip [[1, 2], [3, 4 :: nat]] 0 = [[3, 4], [1, 2]]"
  by (simp add: cv2_flip_def)

lemma image_callback_flip:
  assumes "bool_value (get_parameter e ''flip_image'')" and "imgmsg_to_cv2 e msg = Inr src"
  shows "image_callback e msg s
     = ([], \<lparr>cam_image = Some (length (heap s)),
             heap = heap s @ [cv2_flip (cv2_flip
               (if 0 < integer_value (get_parameter e ''image_resize'')
                then letterbox_resize e src (integer_value (get_parameter e ''image_resize''),
                       integer_value (get_parameter e ''image_resize''))
                else src) 0) 1]\<rparr>)"
  using assms by (simp add: image_callback_def alloc_def Let_def)


text \<open>
  C6. With the flip flag set, \<open>image_callback\<close> caches the frame flipped around the x axis
  and then around the y axis, and that is the rotation by 180 degrees, pixel for pixel:
  the pixel at \<open>(i, j)\<close> is the input's pixel at \<open>(h - 1 - i, w - 1 - j)\<close>. On a frame
  without symmetry the result differs from both mirror images.
\<close>

theorem flip_is_rotation:
  assumes "bool_value (get_parameter e ''flip_image'')"
    and "imgmsg_to_cv2 e msg = Inr src"
    and "img = (if 0 < integer_value (get_parameter e ''image_resize'')
                then letterbox_resize e src (integer_value (get_parameter e ''image_resize''),
                       integer_value (get_parameter e ''image_resize''))
                else src)"
    and "rectangular img h w"
  shows "image_callback e msg s
           = ([], \<lparr>cam_image = Some (length (heap s)),
                    heap = heap s @ [cv2_flip (cv2_flip img 0) 1]\<rparr>)
         \<and> cv2_flip (cv2_flip img 0) 1 = rotate180 img
         \<and> rectangular (rotate180 img) h w
         \<and> (\<forall>i<h. \<forall>j<w. rotate180 img ! i ! j = img ! (h - 1 - i) ! (w - 1 - j))"
proof -
  have a: "image_callback e msg s
           = ([], \<lparr>cam_image = Some (length (heap s)),
                    heap = heap s @ [cv2_flip (cv2_flip img 0) 1]\<rparr>)"
    using image_callback_flip [OF assms(1,2), of s] assms(3) by simp
  have b: "cv2_flip (cv2_flip img 0) 1 = rotate180 img"
    using assms(4) by (rule double_flip_rotate180)
  have c: "rectangular (rotate180 img) h w"
    using rotate180_rectangular [OF assms(4)] b by (simp add: double_flip)
  have d: "\<forall>i<h. \<forall>j<w. rotate180 img ! i ! j = img ! (h - 1 - i) ! (w - 1 - j)"
    using double_flip_nth [OF assms(4)] b by simp
  from a b c d show ?thesis
    by blast
qed

theorem flip_is_rotation_witness:
  "image_callback fenv fimg init_node
     = ([], \<lparr>cam_image = Some 0,
              heap = [[[(6, 6, 6), (5, 5, 5), (4, 4, 4)], [(3, 3, 3), (2, 2, 2), (1, 1, 1)]]]\<rparr>)
   \<and> rotate180 fimg = [[(6, 6, 6), (5, 5, 5), (4, 4, 4)], [(3, 3, 3), (2, 2, 2), (1, 1, 1)]]
   \<and> rotate180 fimg \<noteq> cv2_flip fimg 1 \<and> rotate180 fimg \<noteq> cv2_flip fimg 0"
proof -
  have a: "bool_value (get_parameter fenv ''flip_image'')"
    by (simp add: fenv_def bool_value_def get_parameter_def demo_env_def no_resize_def)
  have b: "imgmsg_to_cv2 fenv fimg = Inr fimg"
    by (simp add: fenv_def demo_env_def fimg_def)
  have c: "fimg = (if 0 < integer_value (get_parameter fenv ''image_resize'')
                then letterbox_resize fenv fimg (integer_value (get_parameter fenv ''image_resize''),
                       integer_value (get_parameter fenv ''image_resize''))
                else fimg)"
    by (simp add: fenv_def integer_value_def get_parameter_def demo_env_def no_resize_def)
  have d: "rectangular fimg 2 3"
    by (simp add: rectangular_def fimg_def)
  have f: "cv2_flip (cv2_flip fimg 0) 1
             = [[(6, 6, 6), (5, 5, 5), (4, 4, 4)], [(3, 3, 3), (2, 2, 2), (1, 1, 1)]]"
    "cv2_flip fimg 1 = [[(3, 3, 3), (2, 2, 2), (1, 1, 1)], [(6, 6, 6), (5, 5, 5), (4, 4, 4)]]"
    "cv2_flip fimg 0 = [[(4, 4, 4), (5, 5, 5), (6, 6, 6)], [(1, 1, 1), (2, 2, 2), (3, 3, 3)]]"
    by (simp_all add: cv2_flip_def fimg_def)
  show ?thesis
    using flip_is_rotation [OF a b c d, of init_node] f
    by (simp add: init_node_def)
qed

section \<open>The loop on the store and the tally of the frame\<close>

lemma then_do_assoc: "then_do (then_do m f) g = then_do m (\<lambda>a. then_do (f a) g)"
  by (cases m; cases "snd m") (auto simp: then_do_def split: prod.splits sum.splits)

lemma then_do_ret_right [simp]: "then_do m ret = m"
  by (cases m; cases "snd m") (auto simp: then_do_def ret_def)

lemma unchanged_but_refl [simp]: "unchanged_but out s s"
  by (simp add: unchanged_but_def)

lemma unchanged_but_trans:
  "unchanged_but out s s' \<Longrightarrow> unchanged_but out s' s'' \<Longrightarrow> unchanged_but out s s''"
  by (simp add: unchanged_but_def)

lemma unchanged_but_draw [simp]: "unchanged_but out s (draw out f s)"
  by (simp add: unchanged_but_def draw_def store_def)

lemma unchanged_but_deref: "unchanged_but out s s' \<Longrightarrow> a \<noteq> out \<Longrightarrow> deref s' a = deref s a"
  by (simp add: unchanged_but_def deref_def)

lemma analyze_box_gate:
  "analyze_box e im out sz mode b st
     = then_do (gate_box e (deref (snd st) im) mode b) (\<lambda>counted.
         ret (if counted then (count_step sz b (fst st), draw out (mark_counted e mode b) (snd st))
              else (fst st, draw out (mark_fake e mode b) (snd st))))"
proof (cases "mode = ''stop''")
  case True
  obtain t r where c: "stopsign_ocr_check e (crop_box (snd st) im b) = (t, r)"
    by (cases "stopsign_ocr_check e (crop_box (snd st) im b)")
  show ?thesis
    using True c
    by (cases r) (auto simp: analyze_box_def count_box_def gate_box_def crop_box_def ret_def)
next
  case False
  obtain t r where c: "orange_vest_mask e (crop_box (snd st) im b) = (t, r)"
    by (cases "orange_vest_mask e (crop_box (snd st) im b)")
  show ?thesis
    using False c
    by (cases r) (auto simp: analyze_box_def count_box_def gate_box_def crop_box_def ret_def)
qed

lemma analyze_boxes_tally:
  assumes "im \<noteq> out"
  shows "fst (analyze_boxes e im out sz mode bs (acc, s))
           = fst (tally_boxes e (deref s im) sz mode bs acc)
       \<and> (case snd (analyze_boxes e im out sz mode bs (acc, s)) of
             Inl err \<Rightarrow> snd (tally_boxes e (deref s im) sz mode bs acc) = Inl err
           | Inr st \<Rightarrow> snd (tally_boxes e (deref s im) sz mode bs acc) = Inr (fst st)
                       \<and> unchanged_but out s (snd st))"
proof (induction bs arbitrary: acc s)
  case Nil
  then show ?case by simp
next
  case (Cons b bs)
  obtain t r where g: "gate_box e (deref s im) mode b = (t, r)"
    by (cases "gate_box e (deref s im) mode b")
  show ?case
  proof (cases r)
    case (Inl err)
    then show ?thesis
      using g by (simp add: analyze_box_gate)
  next
    case (Inr counted)
    define acc' where "acc' = (if counted then count_step sz b acc else acc)"
    define s' where
      "s' = draw out (if counted then mark_counted e mode b else mark_fake e mode b) s"
    have u: "unchanged_but out s s'"
      by (simp add: s'_def)
    have d: "deref s' im = deref s im"
      using u assms by (rule unchanged_but_deref)
    obtain t1 r1 where x: "analyze_boxes e im out sz mode bs (acc', s') = (t1, r1)"
      by (cases "analyze_boxes e im out sz mode bs (acc', s')")
    obtain t2 r2 where y: "tally_boxes e (deref s im) sz mode bs acc' = (t2, r2)"
      by (cases "tally_boxes e (deref s im) sz mode bs acc'")
    have step: "analyze_boxes e im out sz mode (b # bs) (acc, s) = (t @ t1, r1)"
      using g Inr x by (cases counted) (simp_all add: analyze_box_gate acc'_def s'_def)
    have step': "tally_boxes e (deref s im) sz mode (b # bs) acc = (t @ t2, r2)"
      using g Inr y by (simp add: acc'_def)
    have ih: "t1 = t2 \<and> (case r1 of Inl err \<Rightarrow> r2 = Inl err
                | Inr st \<Rightarrow> r2 = Inr (fst st) \<and> unchanged_but out s' (snd st))"
      using Cons.IH [of acc' s'] by (auto simp: x y d split: sum.splits)
    show ?thesis
    proof (cases r1)
      case (Inl err)
      then show ?thesis
        unfolding step step' using ih by simp
    next
      case (Inr st)
      then have "unchanged_but out s (snd st)"
        using ih u by (auto intro: unchanged_but_trans)
      then show ?thesis
        unfolding step step' using ih Inr by simp
    qed
  qed
qed


lemma analyze_boxes_append:
  "analyze_boxes e im out sz mode (xs @ ys) st
     = then_do (analyze_boxes e im out sz mode xs st) (analyze_boxes e im out sz mode ys)"
proof (induction xs arbitrary: st)
  case Nil
  show ?case
    by (simp only: append_Nil analyze_boxes.simps then_do_ret)
next
  case (Cons b xs)
  have "analyze_boxes e im out sz mode ((b # xs) @ ys) st
          = then_do (analyze_box e im out sz mode b st)
              (analyze_boxes e im out sz mode (xs @ ys))"
    by (simp only: append_Cons analyze_boxes.simps)
  also have "\<dots> = then_do (analyze_box e im out sz mode b st)
              (\<lambda>st'. then_do (analyze_boxes e im out sz mode xs st')
                        (analyze_boxes e im out sz mode ys))"
    by (rule arg_cong [where f = "then_do (analyze_box e im out sz mode b st)"])
       (rule ext, rule Cons.IH)
  also have "\<dots> = then_do (then_do (analyze_box e im out sz mode b st)
                               (analyze_boxes e im out sz mode xs))
                      (analyze_boxes e im out sz mode ys)"
    by (rule then_do_assoc [symmetric])
  also have "\<dots> = then_do (analyze_boxes e im out sz mode (b # xs) st)
                      (analyze_boxes e im out sz mode ys)"
    by (simp only: analyze_boxes.simps)
  finally show ?case .
qed

lemma analyze_loop_concat:
  "analyze_loop e im out sz mode results st = analyze_boxes e im out sz mode (concat results) st"
proof (induction results arbitrary: st)
  case Nil
  show ?case
    by (simp only: concat.simps analyze_loop.simps analyze_boxes.simps)
next
  case (Cons boxes results)
  have "analyze_loop e im out sz mode (boxes # results) st
          = then_do (analyze_boxes e im out sz mode boxes st)
              (analyze_loop e im out sz mode results)"
    by (simp only: analyze_loop.simps)
  also have "\<dots> = then_do (analyze_boxes e im out sz mode boxes st)
              (analyze_boxes e im out sz mode (concat results))"
    by (rule arg_cong [where f = "then_do (analyze_boxes e im out sz mode boxes st)"])
       (rule ext, rule Cons.IH)
  also have "\<dots> = analyze_boxes e im out sz mode (concat (boxes # results)) st"
    by (simp only: concat.simps analyze_boxes_append)
  finally show ?case .
qed

lemma deref_alloc_old: "a < length (heap s) \<Longrightarrow> deref (snd (alloc img s)) a = deref s a"
  by (simp add: alloc_def deref_def nth_append)

lemma deref_alloc_fresh: "deref (snd (alloc img s)) (length (heap s)) = img"
  by (simp add: alloc_def deref_def)

lemma analyze_results_unfold:
  assumes "im < length (heap s)"
  shows "analyze_results e results im mode s
     = then_do (analyze_boxes e im (length (heap s))
                  (shape0 (deref s im) * shape1 (deref s im)) mode (concat results)
                  ((0, 0), snd (alloc (deref s im) s)))
         (\<lambda>st. (PublishDetectionWindow (deref (snd st) (length (heap s))) # [], Inr st))"
  by (simp add: analyze_results_def Let_def alloc_def analyze_loop_concat ret_def)

lemma analyze_results_Inl:
  assumes "im < length (heap s)"
    and "snd (tally_boxes e (deref s im) (shape0 (deref s im) * shape1 (deref s im)) mode
           (concat results) (0, 0)) = Inl err"
  shows "analyze_results e results im mode s
     = (fst (tally_boxes e (deref s im) (shape0 (deref s im) * shape1 (deref s im)) mode
          (concat results) (0, 0)), Inl err)"
proof -
  let ?s1 = "snd (alloc (deref s im) s)"
  let ?sz = "shape0 (deref s im) * shape1 (deref s im)"
  have ne: "im \<noteq> length (heap s)"
    using assms(1) by simp
  have d: "deref ?s1 im = deref s im"
    using assms(1) by (rule deref_alloc_old)
  obtain t r where x: "analyze_boxes e im (length (heap s)) ?sz mode (concat results)
      ((0, 0), ?s1) = (t, r)"
    by (cases "analyze_boxes e im (length (heap s)) ?sz mode (concat results) ((0, 0), ?s1)")
  from analyze_boxes_tally [OF ne, of e ?sz mode "concat results" "(0, 0)" ?s1] x assms(2)
  have "t = fst (tally_boxes e (deref s im) ?sz mode (concat results) (0, 0)) \<and> r = Inl err"
    by (auto simp: d split: sum.splits)
  then show ?thesis
    unfolding analyze_results_unfold [OF assms(1)] x by simp
qed

lemma analyze_results_Inr:
  assumes "im < length (heap s)"
    and "snd (tally_boxes e (deref s im) (shape0 (deref s im) * shape1 (deref s im)) mode
           (concat results) (0, 0)) = Inr tally"
  shows "\<exists>w s'. analyze_results e results im mode s
     = (fst (tally_boxes e (deref s im) (shape0 (deref s im) * shape1 (deref s im)) mode
          (concat results) (0, 0)) @ [PublishDetectionWindow w], Inr (tally, s'))
     \<and> unchanged_but (length (heap s)) (snd (alloc (deref s im) s)) s'"
proof -
  let ?s1 = "snd (alloc (deref s im) s)"
  let ?sz = "shape0 (deref s im) * shape1 (deref s im)"
  have ne: "im \<noteq> length (heap s)"
    using assms(1) by simp
  have d: "deref ?s1 im = deref s im"
    using assms(1) by (rule deref_alloc_old)
  obtain t r where x: "analyze_boxes e im (length (heap s)) ?sz mode (concat results)
      ((0, 0), ?s1) = (t, r)"
    by (cases "analyze_boxes e im (length (heap s)) ?sz mode (concat results) ((0, 0), ?s1)")
  from analyze_boxes_tally [OF ne, of e ?sz mode "concat results" "(0, 0)" ?s1] x assms(2)
  obtain st where r: "r = Inr st" "fst st = tally" "unchanged_but (length (heap s)) ?s1 (snd st)"
    and t: "t = fst (tally_boxes e (deref s im) ?sz mode (concat results) (0, 0))"
    by (cases r) (auto simp: d)
  have "analyze_results e results im mode s
     = (t @ [PublishDetectionWindow (deref (snd st) (length (heap s)))], Inr (tally, snd st))"
    unfolding analyze_results_unfold [OF assms(1)] x using r by (cases st) simp
  then show ?thesis
    using r(3) t by blast
qed

lemma gate_box_tire [simp]: "gate_box e frame ''tire'' b = ret True"
  by (simp add: gate_box_def)


lemma count_step_max:
  "count_step sz b acc = (fst acc + 1, max (snd acc) (area_pct sz b))"
  by (simp add: count_step_def Let_def max_def)

lemma count_fold:
  "foldl (\<lambda>a b. count_step sz b a) acc cs
     = (fst acc + length cs, Max (insert (snd acc) (area_pct sz ` set cs)))"
proof (induction cs arbitrary: acc)
  case Nil
  then show ?case by simp
next
  case (Cons c cs)
  let ?S = "area_pct sz ` set cs"
  have fin: "finite ?S"
    by simp
  have mx: "Max (insert (max (snd acc) (area_pct sz c)) ?S)
          = Max (insert (snd acc) (insert (area_pct sz c) ?S))"
  proof (cases "?S = {}")
    case True
    then show ?thesis by simp
  next
    case False
    then show ?thesis
      using fin by (simp add: max.assoc)
  qed
  have "foldl (\<lambda>a b. count_step sz b a) acc (c # cs)
          = foldl (\<lambda>a b. count_step sz b a) (count_step sz c acc) cs"
    by simp
  also have "\<dots> = (fst (count_step sz c acc) + length cs,
                      Max (insert (snd (count_step sz c acc)) ?S))"
    by (rule Cons.IH)
  also have "\<dots> = (fst acc + length (c # cs),
                      Max (insert (snd acc) (area_pct sz ` set (c # cs))))"
    using mx by (simp add: count_step_max)
  finally show ?case .
qed

lemma gate_box_not_stop:
  "mode \<noteq> ''stop'' \<Longrightarrow> snd (gate_box e frame mode b) = Inr counted \<Longrightarrow> counted"
  by (auto simp: gate_box_def Let_def snd_then_do split: sum.splits if_splits)

lemma tally_boxes_subseq:
  assumes "snd (tally_boxes e frame sz mode bs acc) = Inr acc'"
  shows "\<exists>cs. subseq cs bs \<and> acc' = foldl (\<lambda>a b. count_step sz b a) acc cs
              \<and> (mode \<noteq> ''stop'' \<longrightarrow> cs = bs)"
  using assms
proof (induction bs arbitrary: acc)
  case Nil
  then have "acc' = acc"
    by (simp add: ret_def)
  then show ?case
    by (intro exI [of _ "[]"]) simp
next
  case (Cons b bs)
  obtain t r where g: "gate_box e frame mode b = (t, r)"
    by (cases "gate_box e frame mode b")
  from Cons.prems g obtain counted where r: "r = Inr counted"
    by (cases r) auto
  define acc1 where "acc1 = (if counted then count_step sz b acc else acc)"
  have "snd (tally_boxes e frame sz mode bs acc1) = Inr acc'"
    using Cons.prems g r by (simp add: acc1_def)
  from Cons.IH [OF this] obtain cs where cs: "subseq cs bs"
    "acc' = foldl (\<lambda>a b. count_step sz b a) acc1 cs" "mode \<noteq> ''stop'' \<longrightarrow> cs = bs"
    by blast
  show ?case
  proof (cases counted)
    case True
    then have "subseq (b # cs) (b # bs)"
      and "acc' = foldl (\<lambda>a b. count_step sz b a) acc (b # cs)"
      and "mode \<noteq> ''stop'' \<longrightarrow> b # cs = b # bs"
      using cs by (simp_all add: acc1_def)
    then show ?thesis
      by blast
  next
    case False
    then have stop: "mode = ''stop''"
      using gate_box_not_stop [of mode e frame b counted] g r by auto
    have "subseq cs (b # bs)"
      using cs(1) by (rule list_emb_Cons)
    moreover have "acc' = foldl (\<lambda>a b. count_step sz b a) acc cs"
      using cs False by (simp add: acc1_def)
    ultimately show ?thesis
      using stop by blast
  qed
qed

lemma stopsign_draw:
  "stopsign_ocr_check (e\<lparr>cv2_line := l, cv2_putText := p, cv2_rectangle := r\<rparr>) crop
     = stopsign_ocr_check e crop"
  by (simp add: stopsign_ocr_check_def)

lemma vest_draw:
  "orange_vest_mask (e\<lparr>cv2_line := l, cv2_putText := p, cv2_rectangle := r\<rparr>) crop
     = orange_vest_mask e crop"
  by (simp add: orange_vest_mask_def get_parameter_def)

lemma gate_box_draw:
  "gate_box (e\<lparr>cv2_line := l, cv2_putText := p, cv2_rectangle := r\<rparr>) frame mode b
     = gate_box e frame mode b"
  by (simp add: gate_box_def stopsign_draw vest_draw Let_def)

lemma tally_boxes_draw:
  "tally_boxes (e\<lparr>cv2_line := l, cv2_putText := p, cv2_rectangle := r\<rparr>) frame sz mode bs acc
     = tally_boxes e frame sz mode bs acc"
  by (induction bs arbitrary: acc) (simp_all add: gate_box_draw)

lemma stopsign_ReadText:
  "ReadText c \<in> set (fst (stopsign_ocr_check e crop))
   \<Longrightarrow> cv2_cvtColor e crop COLOR_BGR2RGB = Inr c"
proof -
  have no: "ReadText c \<notin> set (fst (scan_readings rs))" for rs
    by (induction rs) (auto simp: Let_def split: prod.splits)
  assume a: "ReadText c \<in> set (fst (stopsign_ocr_check e crop))"
  show ?thesis
  proof (cases "cv2_cvtColor e crop COLOR_BGR2RGB")
    case (Inl err)
    then show ?thesis
      using a by (simp add: stopsign_ocr_check_def)
  next
    case (Inr rgb)
    show ?thesis
    proof (cases "readtext e rgb")
      case (Inl err)
      then show ?thesis
        using a Inr by (simp add: stopsign_ocr_check_def)
    next
      case r: (Inr readings)
      have "fst (stopsign_ocr_check e crop) = ReadText rgb # fst (scan_readings readings)"
        using Inr r by (simp add: stopsign_ocr_check_def split: prod.splits)
      then show ?thesis
        using a no [of readings] Inr by auto
    qed
  qed
qed

lemma vest_no_ReadText: "ReadText c \<notin> set (fst (orange_vest_mask e crop))"
  by (auto simp: orange_vest_mask_def Let_def fst_then_do emit_def lift_def split: sum.splits)

lemma gate_box_ReadText:
  assumes "ReadText c \<in> set (fst (gate_box e frame mode b))"
  shows "cv2_cvtColor e (np_crop frame (py_int (y_min b)) (py_int (y_max b))
         (py_int (x_min b)) (py_int (x_max b))) COLOR_BGR2RGB = Inr c"
proof -
  define crop where "crop = np_crop frame (py_int (y_min b)) (py_int (y_max b))
         (py_int (x_min b)) (py_int (x_max b))"
  have g: "gate_box e frame mode b
     = then_do (if mode = ''stop'' then stopsign_ocr_check e crop else ret True) (\<lambda>ok.
           if \<not> ok then ret False
           else then_do (if mode = ''person'' then orange_vest_mask e crop else ret ()) (\<lambda>u.
                  ret True))"
    by (simp add: gate_box_def crop_def Let_def)
  show ?thesis
  proof (cases "mode = ''stop''")
    case True
    then have "fst (gate_box e frame mode b) = fst (stopsign_ocr_check e crop)"
      unfolding g by (cases "stopsign_ocr_check e crop"; cases "snd (stopsign_ocr_check e crop)")
        (auto simp: ret_def)
    then show ?thesis
      using assms stopsign_ReadText [of c e crop] by (simp add: crop_def)
  next
    case False
    then have "fst (gate_box e frame mode b)
        = fst (if mode = ''person'' then orange_vest_mask e crop else ret ())"
      unfolding g
      by (cases "orange_vest_mask e crop"; cases "snd (orange_vest_mask e crop)")
        (auto simp: ret_def)
    then show ?thesis
      using assms vest_no_ReadText [of c e crop] by (simp split: if_splits)
  qed
qed

lemma tally_boxes_ReadText:
  "ReadText c \<in> set (fst (tally_boxes e frame sz mode bs acc))
   \<Longrightarrow> \<exists>b \<in> set bs. cv2_cvtColor e (np_crop frame (py_int (y_min b)) (py_int (y_max b))
         (py_int (x_min b)) (py_int (x_max b))) COLOR_BGR2RGB = Inr c"
proof (induction bs arbitrary: acc)
  case Nil
  then show ?case by simp
next
  case (Cons b bs)
  obtain t r where g: "gate_box e frame mode b = (t, r)"
    by (cases "gate_box e frame mode b")
  show ?case
  proof (cases "ReadText c \<in> set t")
    case True
    then have "ReadText c \<in> set (fst (gate_box e frame mode b))"
      by (simp add: g)
    from gate_box_ReadText [OF this] show ?thesis
      by simp
  next
    case False
    then obtain counted where r: "r = Inr counted"
      using Cons.prems g by (cases r) simp_all
    define acc1 where "acc1 = (if counted then count_step sz b acc else acc)"
    have "fst (tally_boxes e frame sz mode (b # bs) acc)
            = t @ fst (tally_boxes e frame sz mode bs acc1)"
      by (simp add: g r acc1_def)
    then have "ReadText c \<in> set (fst (tally_boxes e frame sz mode bs acc1))"
      using Cons.prems False by simp
    from Cons.IH [OF this] show ?thesis
      by simp
  qed
qed

section \<open>Running the analyzer on blank frames\<close>

lemma shape0_blank [simp]: "shape0 (blank h w) = h"
  by (simp add: shape0_def blank_def)

lemma shape1_blank [simp]: "0 < h \<Longrightarrow> shape1 (blank h w) = w"
  by (cases h) (simp_all add: shape1_def blank_def)

lemma list_all_replicate: "list_all P (replicate n x) = (n = 0 \<or> P x)"
  by (induction n) auto

lemma py_slice_replicate:
  "py_slice (replicate n x) a b = replicate (slice_index n b - slice_index n a) x"
proof -
  have "slice_index n b \<le> n"
    by (auto simp: slice_index_def)
  then have "min (slice_index n b - slice_index n a) (n - slice_index n a)
      = slice_index n b - slice_index n a"
    by simp
  then show ?thesis
    by (simp add: py_slice_def Let_def)
qed

lemma np_crop_blank:
  "np_crop (blank h w) r0 r1 c0 c1
     = blank (slice_index h r1 - slice_index h r0) (slice_index w c1 - slice_index w c0)"
  by (simp add: np_crop_def blank_def py_slice_replicate)

lemma demo_cvtColor_blank:
  "demo_cvtColor (blank h w) code = (if h = 0 \<or> w = 0 then Inl CvError else Inr (blank h w))"
  by (simp add: demo_cvtColor_def blank_def list_all_replicate)

lemmas analyze_defs = analyze_results_def analyze_box_def count_box_def count_step_def
  area_pct_def draw_def store_def deref_def alloc_def mark_counted_def mark_fake_def
  crop_box_def py_int_def slice_index_def stopsign_ocr_check_def orange_vest_mask_def
  get_parameter_def demo_env_def box_xyxy_def cached_def np_crop_blank demo_cvtColor_blank
  demo_inRange_def numeric3_def numeric_def Let_def

section \<open>Area and running maximum (C7)\<close>

lemma area_pct_formula:
  "area_pct (h * w) b = 100 * (box_width b * box_height b) / (real h * real w)"
  by (simp add: area_pct_def)

text \<open>
  C7. When the analysis of a frame of \<open>H\<close> rows and \<open>W\<close> columns completes, the counted
  detections are a subsequence of the raw ones (all of them unless the mode is stop),
  the count is their number, and the size is the largest of 0 and of
  \<open>100 * (box_width * box_height) / (H * W)\<close> over them. One counting step adds 1 to the
  count and replaces the running maximum only by a strictly greater area, so on a tie the
  earlier value stays. Areas are exact reals here, and \<open>H * W > 0\<close> for a cached frame.
\<close>

theorem analyze_results_area:
  assumes "im < length (heap s)"
    and "analyze_results e results im mode s = (t, Inr ((detected, biggest), s'))"
  shows "(\<exists>counted. subseq counted (concat results)
            \<and> (mode \<noteq> ''stop'' \<longrightarrow> counted = concat results)
            \<and> detected = length counted
            \<and> biggest = Max (insert 0 ((\<lambda>b. 100 * (box_width b * box_height b)
                  / (real (shape0 (deref s im)) * real (shape1 (deref s im)))) ` set counted)))
       \<and> count_step sz b (n, m)
            = (n + 1, if m < 100 * (box_width b * box_height b) / real sz
                      then 100 * (box_width b * box_height b) / real sz else m)"
proof -
  let ?sz = "shape0 (deref s im) * shape1 (deref s im)"
  let ?T = "tally_boxes e (deref s im) ?sz mode (concat results) (0, 0)"
  have r: "snd ?T = Inr (detected, biggest)"
  proof (cases "snd ?T")
    case (Inl err)
    from analyze_results_Inl [OF assms(1) this] assms(2) show ?thesis
      by simp
  next
    case (Inr tally)
    from analyze_results_Inr [OF assms(1) this] assms(2) show ?thesis
      using Inr by auto
  qed
  from tally_boxes_subseq [OF r] obtain cs where cs: "subseq cs (concat results)"
    "(detected, biggest) = foldl (\<lambda>a b. count_step ?sz b a) (0, 0) cs"
    "mode \<noteq> ''stop'' \<longrightarrow> cs = concat results"
    by blast
  have "detected = length cs \<and> biggest = Max (insert 0 (area_pct ?sz ` set cs))"
    using cs(2) by (simp add: count_fold)
  then have "detected = length cs
      \<and> biggest = Max (insert 0 ((\<lambda>b. 100 * (box_width b * box_height b)
                  / (real (shape0 (deref s im)) * real (shape1 (deref s im)))) ` set cs))"
    by (simp add: area_pct_formula)
  moreover have "count_step sz b (n, m)
            = (n + 1, if m < 100 * (box_width b * box_height b) / real sz
                      then 100 * (box_width b * box_height b) / real sz else m)"
    by (simp add: count_step_def area_pct_def Let_def)
  ultimately show ?thesis
    using cs(1,3) by blast
qed

theorem analyze_results_area_witness:
  "analyze_results (demo_env no_resize [] []) [[box_xyxy 0 0 50 50]] 0 ''tire''
       (cached (blank 100 100))
     = ([PublishDetectionWindow (blank 100 100)],
        Inr ((1, 25), \<lparr>cam_image = Some 0, heap = [blank 100 100, blank 100 100]\<rparr>))
   \<and> analyze_results (demo_env no_resize [] [])
       [[box_xyxy 0 0 25 40, box_xyxy 10 10 35 50]] 0 ''tire'' (cached (blank 100 100))
     = ([PublishDetectionWindow (blank 100 100)],
        Inr ((2, 10), \<lparr>cam_image = Some 0, heap = [blank 100 100, blank 100 100]\<rparr>))
   \<and> count_step 10000 (box_xyxy 10 10 35 50) (1, 10) = (2, 10)"
proof -
  let ?e = "demo_env no_resize [] [] :: image env"
  let ?s = "cached (blank 100 100)"
  let ?s' = "\<lparr>cam_image = Some 0, heap = [blank 100 100, blank 100 100]\<rparr>"
  have i: "0 < length (heap ?s)"
    by (simp add: cached_def)
  have a: "analyze_results ?e [[box_xyxy 0 0 50 50]] 0 ''tire'' ?s
     = ([PublishDetectionWindow (blank 100 100)], Inr ((1, 25), ?s'))"
    by (simp add: analyze_defs)
  have b: "analyze_results ?e [[box_xyxy 0 0 25 40, box_xyxy 10 10 35 50]] 0 ''tire'' ?s
     = ([PublishDetectionWindow (blank 100 100)], Inr ((2, 10), ?s'))"
    by (simp add: analyze_defs)
  show ?thesis
    using analyze_results_area [OF i a, of 10000 "box_xyxy 10 10 35 50" 1 10]
      analyze_results_area [OF i b, of 10000 "box_xyxy 10 10 35 50" 1 10] a b
    by (simp add: box_xyxy_def)
qed

section \<open>A bounding box outside the frame (C8)\<close>




section \<open>The vest segmenter in person mode (C9)\<close>

text \<open>
  The bounds that \<open>orange_vest_mask\<close> hands to \<open>inRange\<close> are Parameter objects, never
  numbers: with an \<open>inRange\<close> that rejects such bounds the segmenter cannot return.
\<close>

lemma orange_vest_mask_raises:
  assumes "\<And>hsv lo hi. numeric3 lo = None \<Longrightarrow> \<exists>err. cv2_inRange e hsv lo hi = Inl err"
  shows "\<exists>err. orange_vest_mask e crop = ([], Inl err)"
proof (cases "cv2_cvtColor e crop COLOR_BGR2HSV")
  case (Inl err)
  then show ?thesis
    by (simp add: orange_vest_mask_def)
next
  case (Inr hsv)
  let ?lo = "(Obj (get_parameter e ''orange.hue_l''), Obj (get_parameter e ''orange.sat_l''),
              Obj (get_parameter e ''orange.val_l''))"
  let ?hi = "(Obj (get_parameter e ''orange.hue_h''), Obj (get_parameter e ''orange.sat_h''),
              Obj (get_parameter e ''orange.val_h''))"
  have "numeric3 ?lo = None"
    by (simp add: numeric3_def numeric_def)
  from assms [OF this, of hsv ?hi] obtain err where "cv2_inRange e hsv ?lo ?hi = Inl err"
    by blast
  then show ?thesis
    using Inr by (simp add: orange_vest_mask_def)
qed

text \<open>
  C9. The claim: in person mode the mask is published and never inspected, so every raw
  detection is counted. The analyzer indeed never reads the mask, but the segmenter is
  called before the counting step and raises: on a cached 200 by 200 frame with one
  detected box (50,50)-(100,100) the request ends with the OpenCV error after the detector
  call, with no mask published and no (count, size) returned, where the claim gives (1, 6.25).
\<close>

theorem person_detection_raises:
  "handle_detection_request (demo_env declared_parameters [[box_xyxy 50 50 100 100]] [])
       ''person'' (cached (blank 200 200))
     = ([YoloPredict (PyStr []) (blank 200 200) 0], Inl CvError)"
  by (simp add: handle_detection_request_def detect_def dict_get_def model_path_def
      target_ids_def analyze_defs declared_parameters_def)

section \<open>Detection operates on copies (C10)\<close>

lemma detect_frame_draw:
  "detect_frame (e\<lparr>cv2_line := l, cv2_putText := p, cv2_rectangle := r\<rparr>) mode frame
     = detect_frame e mode frame"
  by (simp add: detect_frame_def model_path_def get_parameter_def tally_boxes_draw)

lemma detect_unfold:
  assumes "cam_image s = Some a" and "a < length (heap s)"
  shows "detect e mode s
     = then_do (lift (dict_get (model_path e) mode)) (\<lambda>path.
       then_do (lift (dict_get target_ids mode)) (\<lambda>cls.
       then_do (emit (YoloPredict path (deref s a) cls)) (\<lambda>u.
       then_do (lift (yolo_predict e path (deref s a) cls)) (\<lambda>results.
       then_do (analyze_results e results (length (heap s)) mode (snd (alloc (deref s a) s)))
         (\<lambda>st. ret (fst st, (snd st)\<lparr>cam_image := None\<rparr>))))))"
proof -
  have d: "deref (s\<lparr>heap := heap s @ [deref s a]\<rparr>) (length (heap s)) = deref s a"
    by (simp add: deref_def)
  show ?thesis
    using assms(1)
    by (cases "dict_get (model_path e) mode"; cases "dict_get target_ids mode")
       (simp_all add: detect_def alloc_def d)
qed


lemma analyze_results_frame:
  assumes "im < length (heap s)"
  shows "filter (\<lambda>x. \<not> is_window x) (fst (analyze_results e results im mode s))
           = filter (\<lambda>x. \<not> is_window x)
               (fst (tally_boxes e (deref s im) (shape0 (deref s im) * shape1 (deref s im))
                  mode (concat results) (0, 0)))
       \<and> map_sum id fst (snd (analyze_results e results im mode s))
           = snd (tally_boxes e (deref s im) (shape0 (deref s im) * shape1 (deref s im))
                  mode (concat results) (0, 0))
       \<and> (\<forall>tally s'. snd (analyze_results e results im mode s) = Inr (tally, s')
            \<longrightarrow> unchanged_but (length (heap s)) (snd (alloc (deref s im) s)) s')"
proof (cases "snd (tally_boxes e (deref s im) (shape0 (deref s im) * shape1 (deref s im))
                  mode (concat results) (0, 0))")
  case (Inl err)
  from analyze_results_Inl [OF assms this] show ?thesis
    using Inl by simp
next
  case (Inr tally)
  from analyze_results_Inr [OF assms this] show ?thesis
    using Inr by auto
qed

lemma detect_frame_eq:
  assumes "cam_image s = Some a" and "a < length (heap s)"
  shows "filter (\<lambda>x. \<not> is_window x) (fst (detect e mode s))
           = filter (\<lambda>x. \<not> is_window x) (fst (detect_frame e mode (deref s a)))
       \<and> map_sum id fst (snd (detect e mode s)) = snd (detect_frame e mode (deref s a))
       \<and> (\<forall>tally s'. snd (detect e mode s) = Inr (tally, s')
            \<longrightarrow> cam_image s' = None \<and> length (heap s') = length (heap s) + 2
                \<and> (\<forall>i<length (heap s). heap s' ! i = heap s ! i)
                \<and> heap s' ! length (heap s) = deref s a)"
proof (cases "dict_get (model_path e) mode")
  case (Inl err)
  then show ?thesis
    by (simp add: detect_unfold [OF assms] detect_frame_def)
next
  case p: (Inr path)
  show ?thesis
  proof (cases "dict_get target_ids mode")
    case (Inl err)
    then show ?thesis
      using p by (simp add: detect_unfold [OF assms] detect_frame_def)
  next
    case c: (Inr cls)
    show ?thesis
    proof (cases "yolo_predict e path (deref s a) cls")
      case (Inl err)
      then show ?thesis
        using p c by (simp add: detect_unfold [OF assms] detect_frame_def lift_def)
    next
      case (Inr results)
      define s1 where "s1 = snd (alloc (deref s a) s)"
      define A where "A = analyze_results e results (length (heap s)) mode s1"
      define T where "T = tally_boxes e (deref s a) (shape0 (deref s a) * shape1 (deref s a))
                  mode (concat results) (0, 0)"
      have len1: "length (heap s1) = length (heap s) + 1"
        and old1: "\<And>i. i < length (heap s) \<Longrightarrow> heap s1 ! i = heap s ! i"
        and new1: "heap s1 ! length (heap s) = deref s a"
        and cam1: "cam_image s1 = cam_image s"
        by (simp_all add: s1_def alloc_def nth_append)
      have im: "length (heap s) < length (heap s1)"
        using len1 by simp
      have d1: "deref s1 (length (heap s)) = deref s a"
        using new1 im by (simp add: deref_def)
      have af: "filter (\<lambda>x. \<not> is_window x) (fst A) = filter (\<lambda>x. \<not> is_window x) (fst T)"
        and ar: "map_sum id fst (snd A) = snd T"
        and au: "\<And>tally s'. snd A = Inr (tally, s')
            \<Longrightarrow> unchanged_but (length (heap s1)) (snd (alloc (deref s a) s1)) s'"
        using analyze_results_frame [OF im, of e results mode] unfolding A_def T_def d1
        by blast+
      have dt: "detect e mode s
          = (YoloPredict path (deref s a) cls # fst A
               @ (case snd A of Inl err \<Rightarrow> [] | Inr st \<Rightarrow> []),
             case snd A of Inl err \<Rightarrow> Inl err
             | Inr st \<Rightarrow> Inr (fst st, (snd st)\<lparr>cam_image := None\<rparr>))"
        using p c Inr
        by (cases A; cases "snd A")
           (simp_all add: detect_unfold [OF assms] lift_def A_def s1_def ret_def)
      have df: "detect_frame e mode (deref s a) = (YoloPredict path (deref s a) cls # fst T, snd T)"
        using p c Inr by (simp add: detect_frame_def lift_def T_def)
      have one: "filter (\<lambda>x. \<not> is_window x) (fst (detect e mode s))
           = filter (\<lambda>x. \<not> is_window x) (fst (detect_frame e mode (deref s a)))"
        unfolding dt df using af by (simp split: sum.splits)
      have two: "map_sum id fst (snd (detect e mode s)) = snd (detect_frame e mode (deref s a))"
        unfolding dt df using ar by (cases "snd A") auto
      have three: "cam_image s' = None \<and> length (heap s') = length (heap s) + 2
                \<and> (\<forall>i<length (heap s). heap s' ! i = heap s ! i)
                \<and> heap s' ! length (heap s) = deref s a"
        if "snd (detect e mode s) = Inr (tally, s')" for tally s'
      proof -
        from that obtain st where st: "snd A = Inr st" "tally = fst st"
          "s' = (snd st)\<lparr>cam_image := None\<rparr>"
          unfolding dt by (cases "snd A") auto
        have "unchanged_but (length (heap s1)) (snd (alloc (deref s a) s1)) (snd st)"
          using au [of "fst st" "snd st"] st(1) by simp
        then have "length (heap (snd st)) = length (heap s1) + 1"
          and "\<And>i. i \<noteq> length (heap s1) \<Longrightarrow> heap (snd st) ! i = (heap s1 @ [deref s a]) ! i"
          by (simp_all add: unchanged_but_def alloc_def)
        then show ?thesis
          using st(3) len1 old1 new1 by (simp add: nth_append)
      qed
      from one two three show ?thesis
        by blast
    qed
  qed
qed


lemma scan_readings_logs:
  "x \<in> set (fst (scan_readings rs)) \<Longrightarrow> \<exists>msg. x = LogInfo msg"
  by (induction rs) (auto simp: Let_def split: prod.splits if_splits)

lemma stopsign_no_VestMask: "PublishVestMask m \<notin> set (fst (stopsign_ocr_check e crop))"
proof (cases "cv2_cvtColor e crop COLOR_BGR2RGB")
  case (Inl err)
  then show ?thesis
    by (simp add: stopsign_ocr_check_def)
next
  case (Inr rgb)
  show ?thesis
  proof (cases "readtext e rgb")
    case (Inl err)
    then show ?thesis
      using Inr by (simp add: stopsign_ocr_check_def)
  next
    case r: (Inr readings)
    have "fst (stopsign_ocr_check e crop) = ReadText rgb # fst (scan_readings readings)"
      using Inr r by (simp add: stopsign_ocr_check_def split: prod.splits)
    then show ?thesis
      using scan_readings_logs [of "PublishVestMask m" readings] by auto
  qed
qed

lemma vest_VestMask:
  assumes "PublishVestMask m \<in> set (fst (orange_vest_mask e crop))"
  shows "\<exists>hsv lo hi. cv2_cvtColor e crop COLOR_BGR2HSV = Inr hsv \<and> cv2_inRange e hsv lo hi = Inr m"
proof (cases "cv2_cvtColor e crop COLOR_BGR2HSV")
  case (Inl err)
  then show ?thesis
    using assms by (simp add: orange_vest_mask_def)
next
  case (Inr hsv)
  let ?lo = "(Obj (get_parameter e ''orange.hue_l''), Obj (get_parameter e ''orange.sat_l''),
              Obj (get_parameter e ''orange.val_l''))"
  let ?hi = "(Obj (get_parameter e ''orange.hue_h''), Obj (get_parameter e ''orange.sat_h''),
              Obj (get_parameter e ''orange.val_h''))"
  show ?thesis
  proof (cases "cv2_inRange e hsv ?lo ?hi")
    case (Inl err)
    then show ?thesis
      using assms Inr by (simp add: orange_vest_mask_def)
  next
    case r: (Inr m')
    then have "m' = m"
      using assms Inr by (simp add: orange_vest_mask_def emit_def)
    then show ?thesis
      using Inr r by blast
  qed
qed

lemma gate_box_VestMask:
  assumes "PublishVestMask m \<in> set (fst (gate_box e frame mode b))"
  shows "\<exists>hsv lo hi. cv2_cvtColor e (np_crop frame (py_int (y_min b)) (py_int (y_max b))
         (py_int (x_min b)) (py_int (x_max b))) COLOR_BGR2HSV = Inr hsv
       \<and> cv2_inRange e hsv lo hi = Inr m"
proof -
  define crop where "crop = np_crop frame (py_int (y_min b)) (py_int (y_max b))
         (py_int (x_min b)) (py_int (x_max b))"
  have g: "gate_box e frame mode b
     = then_do (if mode = ''stop'' then stopsign_ocr_check e crop else ret True) (\<lambda>ok.
           if \<not> ok then ret False
           else then_do (if mode = ''person'' then orange_vest_mask e crop else ret ()) (\<lambda>u.
                  ret True))"
    by (simp add: gate_box_def crop_def Let_def)
  show ?thesis
  proof (cases "mode = ''stop''")
    case True
    then have "fst (gate_box e frame mode b) = fst (stopsign_ocr_check e crop)"
      unfolding g by (cases "stopsign_ocr_check e crop"; cases "snd (stopsign_ocr_check e crop)")
        (auto simp: ret_def)
    then show ?thesis
      using assms stopsign_no_VestMask [of m e crop] by simp
  next
    case False
    then have "fst (gate_box e frame mode b)
        = fst (if mode = ''person'' then orange_vest_mask e crop else ret ())"
      unfolding g
      by (cases "orange_vest_mask e crop"; cases "snd (orange_vest_mask e crop)")
        (auto simp: ret_def)
    then have "PublishVestMask m \<in> set (fst (orange_vest_mask e crop))"
      using assms by (simp split: if_splits)
    from vest_VestMask [OF this] show ?thesis
      by (simp add: crop_def)
  qed
qed

lemma tally_boxes_VestMask:
  "PublishVestMask m \<in> set (fst (tally_boxes e frame sz mode bs acc))
   \<Longrightarrow> \<exists>(b::box) hsv lo hi. cv2_cvtColor e (np_crop frame (py_int (y_min b)) (py_int (y_max b))
         (py_int (x_min b)) (py_int (x_max b))) COLOR_BGR2HSV = Inr hsv
       \<and> cv2_inRange e hsv lo hi = Inr m"
proof (induction bs arbitrary: acc)
  case Nil
  then show ?case by simp
next
  case (Cons b bs)
  obtain t r where g: "gate_box e frame mode b = (t, r)"
    by (cases "gate_box e frame mode b")
  show ?case
  proof (cases "PublishVestMask m \<in> set t")
    case True
    then have "PublishVestMask m \<in> set (fst (gate_box e frame mode b))"
      by (simp add: g)
    from gate_box_VestMask [OF this] show ?thesis
      by (rule exI)
  next
    case False
    then obtain counted where r: "r = Inr counted"
      using Cons.prems g by (cases r) simp_all
    define acc1 where "acc1 = (if counted then count_step sz b acc else acc)"
    have "fst (tally_boxes e frame sz mode (b # bs) acc)
            = t @ fst (tally_boxes e frame sz mode bs acc1)"
      by (simp add: g r acc1_def)
    then have "PublishVestMask m \<in> set (fst (tally_boxes e frame sz mode bs acc1))"
      using Cons.prems False by simp
    from Cons.IH [OF this] show ?thesis .
  qed
qed

lemma detect_frame_effects:
  assumes "x \<in> set (fst (detect_frame e mode frame))"
  shows "(\<exists>path cls. x = YoloPredict path frame cls)
       \<or> (\<exists>sz bs acc. x \<in> set (fst (tally_boxes e frame sz mode bs acc)))"
proof (cases "dict_get (model_path e) mode")
  case (Inl err)
  then show ?thesis
    using assms by (simp add: detect_frame_def)
next
  case p: (Inr path)
  show ?thesis
  proof (cases "dict_get target_ids mode")
    case (Inl err)
    then show ?thesis
      using assms p by (simp add: detect_frame_def)
  next
    case c: (Inr cls)
    show ?thesis
    proof (cases "yolo_predict e path frame cls")
      case (Inl err)
      then show ?thesis
        using assms p c by (simp add: detect_frame_def lift_def)
    next
      case (Inr results)
      then have "fst (detect_frame e mode frame)
          = YoloPredict path frame cls
            # fst (tally_boxes e frame (shape0 frame * shape1 frame) mode (concat results) (0, 0))"
        using p c by (simp add: detect_frame_def lift_def)
      then show ?thesis
        using assms by auto
    qed
  qed
qed

text \<open>
  C10. A detection pass works on copies. When the pass completes, the array that was
  cached and the copy made of it for the pass still hold the frame, and the only other
  array is the annotation buffer. Every image shown to the text reader and every
  published vest mask comes from a crop of the frame as it was cached. And whatever the
  drawing calls do to the array they are given, the count, the size, the error if any and
  every effect but the published detection window are the same: annotating one detection
  does not change what a later detection of the pass is judged on.
\<close>

theorem detection_on_copies:
  assumes "cam_image s = Some a" and "a < length (heap s)"
  shows "(detect e mode s = (t, Inr (tally, s'))
            \<longrightarrow> deref s' a = deref s a \<and> deref s' (length (heap s)) = deref s a
                \<and> length (heap s') = length (heap s) + 2)
       \<and> (ReadText c \<in> set (fst (detect e mode s))
            \<longrightarrow> (\<exists>b::box. cv2_cvtColor e (np_crop (deref s a) (py_int (y_min b)) (py_int (y_max b))
                        (py_int (x_min b)) (py_int (x_max b))) COLOR_BGR2RGB = Inr c))
       \<and> (PublishVestMask m \<in> set (fst (detect e mode s))
            \<longrightarrow> (\<exists>(b::box) hsv lo hi.
                   cv2_cvtColor e (np_crop (deref s a) (py_int (y_min b)) (py_int (y_max b))
                        (py_int (x_min b)) (py_int (x_max b))) COLOR_BGR2HSV = Inr hsv
                   \<and> cv2_inRange e hsv lo hi = Inr m))
       \<and> map_sum id fst
            (snd (detect (e\<lparr>cv2_line := l, cv2_putText := p, cv2_rectangle := r\<rparr>) mode s))
           = map_sum id fst (snd (detect e mode s))
       \<and> filter (\<lambda>x. \<not> is_window x)
            (fst (detect (e\<lparr>cv2_line := l, cv2_putText := p, cv2_rectangle := r\<rparr>) mode s))
           = filter (\<lambda>x. \<not> is_window x) (fst (detect e mode s))"
proof -
  note eq = detect_frame_eq [OF assms]
  have buffers: "deref s' a = deref s a \<and> deref s' (length (heap s)) = deref s a
                \<and> length (heap s') = length (heap s) + 2"
    if "detect e mode s = (t, Inr (tally, s'))"
  proof -
    from that have "snd (detect e mode s) = Inr (tally, s')"
      by simp
    with eq [of e mode] have "length (heap s') = length (heap s) + 2"
      and "\<forall>i<length (heap s). heap s' ! i = heap s ! i"
      and "heap s' ! length (heap s) = deref s a"
      by blast+
    then show ?thesis
      using assms(2) by (simp add: deref_def)
  qed
  have mem: "x \<in> set (fst (detect_frame e mode (deref s a)))"
    if "x \<in> set (fst (detect e mode s))" and "\<not> is_window x" for x
  proof -
    from that have "x \<in> set (filter (\<lambda>x. \<not> is_window x) (fst (detect e mode s)))"
      by simp
    then have "x \<in> set (filter (\<lambda>x. \<not> is_window x) (fst (detect_frame e mode (deref s a))))"
      using eq [of e mode] by simp
    then show ?thesis
      by simp
  qed
  have reader: "\<exists>b::box. cv2_cvtColor e (np_crop (deref s a) (py_int (y_min b)) (py_int (y_max b))
                        (py_int (x_min b)) (py_int (x_max b))) COLOR_BGR2RGB = Inr c"
    if "ReadText c \<in> set (fst (detect e mode s))"
  proof -
    from mem [OF that] have "ReadText c \<in> set (fst (detect_frame e mode (deref s a)))"
      by simp
    from detect_frame_effects [OF this] obtain sz bs acc
      where "ReadText c \<in> set (fst (tally_boxes e (deref s a) sz mode bs acc))"
      by auto
    from tally_boxes_ReadText [OF this] show ?thesis
      by (elim bexE) (rule exI)
  qed
  have vest: "\<exists>(b::box) hsv lo hi.
                   cv2_cvtColor e (np_crop (deref s a) (py_int (y_min b)) (py_int (y_max b))
                        (py_int (x_min b)) (py_int (x_max b))) COLOR_BGR2HSV = Inr hsv
                   \<and> cv2_inRange e hsv lo hi = Inr m"
    if "PublishVestMask m \<in> set (fst (detect e mode s))"
  proof -
    from mem [OF that] have "PublishVestMask m \<in> set (fst (detect_frame e mode (deref s a)))"
      by simp
    from detect_frame_effects [OF this] obtain sz bs acc
      where "PublishVestMask m \<in> set (fst (tally_boxes e (deref s a) sz mode bs acc))"
      by auto
    from tally_boxes_VestMask [OF this] show ?thesis .
  qed
  let ?e' = "e\<lparr>cv2_line := l, cv2_putText := p, cv2_rectangle := r\<rparr>"
  have res: "map_sum id fst (snd (detect ?e' mode s)) = map_sum id fst (snd (detect e mode s))"
    using eq [of ?e' mode] eq [of e mode] by (simp add: detect_frame_draw)
  have eff: "filter (\<lambda>x. \<not> is_window x) (fst (detect ?e' mode s))
           = filter (\<lambda>x. \<not> is_window x) (fst (detect e mode s))"
    using eq [of ?e' mode] eq [of e mode] by (simp add: detect_frame_draw)
  from buffers reader vest res eff show ?thesis
    by blast
qed

theorem detection_on_copies_witness:
  "detect (two_box_env\<lparr>cv2_line := (\<lambda>im p q. paint im),
                        cv2_putText := (\<lambda>im txt org. paint im),
                        cv2_rectangle := (\<lambda>im p q. paint im)\<rparr>) ''stop'' (cached (blank 2 2))
     = ([YoloPredict (PyStr []) (blank 2 2) 11,
         ReadText (blank 1 1), LogInfo ''Sign reads: STOP'',
         ReadText (blank 1 1), LogInfo ''Sign reads: STOP'',
         PublishDetectionWindow (paint (blank 2 2))],
        Inr ((2, 25), \<lparr>cam_image = None, heap = [blank 2 2, blank 2 2, paint (blank 2 2)]\<rparr>))
   \<and> detect two_box_env ''stop'' (cached (blank 2 2))
     = ([YoloPredict (PyStr []) (blank 2 2) 11,
         ReadText (blank 1 1), LogInfo ''Sign reads: STOP'',
         ReadText (blank 1 1), LogInfo ''Sign reads: STOP'',
         PublishDetectionWindow (blank 2 2)],
        Inr ((2, 25), \<lparr>cam_image = None, heap = [blank 2 2, blank 2 2, blank 2 2]\<rparr>))
   \<and> paint (blank 2 2) \<noteq> blank 2 2"
proof -
  let ?l = "\<lambda>(im :: image) (p :: int \<times> int) (q :: int \<times> int). paint im"
  let ?p = "\<lambda>(im :: image) (txt :: string) (org :: int \<times> int). paint im"
  let ?s = "cached (blank 2 2)"
  have c: "cam_image ?s = Some 0" and a: "0 < length (heap ?s)"
    by (simp_all add: cached_def)
  have up: "py_upper ''STOP'' = ''STOP''"
    by (simp add: py_upper_def py_upper_char_def)
  have differ: "paint (blank 2 2) \<noteq> blank 2 2"
    by (simp add: paint_def blank_def)
  have plain: "detect two_box_env ''stop'' ?s
     = ([YoloPredict (PyStr []) (blank 2 2) 11,
         ReadText (blank 1 1), LogInfo ''Sign reads: STOP'',
         ReadText (blank 1 1), LogInfo ''Sign reads: STOP'',
         PublishDetectionWindow (blank 2 2)],
        Inr ((2, 25), \<lparr>cam_image = None, heap = [blank 2 2, blank 2 2, blank 2 2]\<rparr>))"
    by (simp add: detect_def dict_get_def model_path_def target_ids_def analyze_defs
        two_box_env_def no_resize_def declared_parameters_def up)
  have painted: "detect (two_box_env\<lparr>cv2_line := ?l, cv2_putText := ?p, cv2_rectangle := ?l\<rparr>)
       ''stop'' ?s
     = ([YoloPredict (PyStr []) (blank 2 2) 11,
         ReadText (blank 1 1), LogInfo ''Sign reads: STOP'',
         ReadText (blank 1 1), LogInfo ''Sign reads: STOP'',
         PublishDetectionWindow (paint (blank 2 2))],
        Inr ((2, 25), \<lparr>cam_image = None, heap = [blank 2 2, blank 2 2, paint (blank 2 2)]\<rparr>))"
    by (simp add: detect_def dict_get_def model_path_def target_ids_def analyze_defs
        two_box_env_def no_resize_def declared_parameters_def up paint_def)
  show ?thesis
    using detection_on_copies [OF c a, of two_box_env "''stop''" _ "(2, 25)"
        "\<lparr>cam_image = None, heap = [blank 2 2, blank 2 2, blank 2 2]\<rparr>" "blank 1 1" "[]"
        ?l ?p ?l] plain painted differ
    by simp
qed

end
